theory Spec2Isabelle
  imports Main
begin

section \<open>Python values held in rule tuples\<close>

text \<open>
  A rule is a 5-tuple whose fields the engine reads through \<open>str(...)\<close> and \<open>int(...)\<close>.
  \<open>_read_rules\<close> builds the tuples from strings; the class docstring also allows tuples
  given directly, with integer fields. Both kinds of field are kept.
  A character of a Python string is its code point, and the characters of HOL stand for
  the code points 0 to 255: the character classes below are those of Python on these
  code points. A text with a code point above 255 is outside the model.
\<close>

datatype pyval = PStr string | PInt int

datatype error =
    RuleNotFound string string
  | IncorrectSymbolCount int
  | TapeBlank
  | ValueError
  | NameError

definition digit_char :: "nat \<Rightarrow> char" where
  "digit_char d = char_of (48 + d)"

fun nat_digits :: "nat \<Rightarrow> string" where
  "nat_digits n =
     (if n < 10 then [digit_char n] else nat_digits (n div 10) @ [digit_char (n mod 10)])"

declare nat_digits.simps [simp del]

text \<open>\<open>str(v)\<close>: a string is itself, an integer is its decimal numeral.\<close>

fun py_str :: "pyval \<Rightarrow> string" where
  "py_str (PStr s) = s"
| "py_str (PInt i) = (if i < 0 then CHR ''-'' # nat_digits (nat (- i)) else nat_digits (nat i))"

definition is_digit :: "char \<Rightarrow> bool" where
  "is_digit c = (48 \<le> (of_char c :: nat) \<and> (of_char c :: nat) \<le> 57)"

definition int_space :: "char \<Rightarrow> bool" where
  \<comment> \<open>The white space that \<open>int()\<close> drops around a literal: TAB, LF, VT, FF, CR and the
      space, and beyond ASCII the next-line character 0x85 and the no-break space 0xA0.
      The separators FS, GS, RS and US are not dropped.\<close>
  "int_space c =
     (let n = (of_char c :: nat) in (9 \<le> n \<and> n \<le> 13) \<or> n = 32 \<or> n = 133 \<or> n = 160)"

definition strip :: "string \<Rightarrow> string" where
  "strip s = rev (dropWhile int_space (rev (dropWhile int_space s)))"

text \<open>The digits of an integer literal: \<open>digit (_? digit)*\<close>.\<close>

fun int_body :: "string \<Rightarrow> bool" where
  "int_body [] = False"
| "int_body [c] = is_digit c"
| "int_body (c # d # cs) =
     (is_digit c \<and> (if d = CHR ''_'' then int_body cs else int_body (d # cs)))"

definition digits_value :: "string \<Rightarrow> int" where
  "digits_value s = foldl (\<lambda>a c. 10 * a + (int (of_char c) - 48)) 0 (filter is_digit s)"

definition int_of_string :: "string \<Rightarrow> error + int" where
  "int_of_string s =
     (case strip s of
        [] \<Rightarrow> Inl ValueError
      | c # cs \<Rightarrow>
          if c = CHR ''-'' then (if int_body cs then Inr (- digits_value cs) else Inl ValueError)
          else if c = CHR ''+'' then (if int_body cs then Inr (digits_value cs) else Inl ValueError)
          else if int_body (c # cs) then Inr (digits_value (c # cs))
          else Inl ValueError)"

text \<open>
  \<open>int(v)\<close>: an integer is itself; a string is read as a decimal literal (white space
  around it, an optional sign, digits with single underscores between them) or raises
  \<open>ValueError\<close>. The bound that recent interpreters put on the number of digits is not
  modelled.
\<close>

fun py_int :: "pyval \<Rightarrow> error + int" where
  "py_int (PInt i) = Inr i"
| "py_int (PStr s) = int_of_string s"

section \<open>The tape\<close>

type_synonym symbol = string

type_synonym tape = "(int \<times> symbol) list"

definition BLANK :: symbol where
  "BLANK = ''_''"

definition Tape :: "string \<Rightarrow> tape" where
  \<comment> \<open>Modelled from the spec: the module \<open>tape\<close> (class \<open>Tape\<close>) is imported by
      \<open>turing.py\<close> and is not part of the sources at hand. \<open>Tape(value)\<close> holds the
      characters of \<open>value\<close> at positions \<open>0, 1, ...\<close>; the tape is a mapping from signed
      integer positions to symbols.\<close>
  "Tape v = zip (map int [0..<length v]) (map (\<lambda>c. [c]) v)"

definition is_blank :: "tape \<Rightarrow> bool" where
  \<comment> \<open>Modelled from the spec: \<open>not self._tape\<close>, true if the tape holds no symbols at all
      (it was constructed from empty input).\<close>
  "is_blank t = (t = [])"

definition tape_get :: "tape \<Rightarrow> int \<Rightarrow> symbol" where
  \<comment> \<open>Modelled from the spec: \<open>self._tape[i]\<close> returns the stored symbol at the position,
      or the blank symbol if it was never written; it never fails.\<close>
  "tape_get t i = (case map_of t i of None \<Rightarrow> BLANK | Some s \<Rightarrow> s)"

definition tape_set :: "tape \<Rightarrow> int \<Rightarrow> symbol \<Rightarrow> tape" where
  \<comment> \<open>Modelled from the spec: \<open>self._tape[i] = s\<close> stores the symbol at the position,
      at any integer index; it never fails.\<close>
  "tape_set t i s = (i, s) # filter (\<lambda>kv. fst kv \<noteq> i) t"

section \<open>The machine\<close>

type_synonym rule = "pyval \<times> pyval \<times> pyval \<times> pyval \<times> pyval"

text \<open>The fields of a rule tuple, named as in the class docstring; \<open>r[0]\<close> to \<open>r[4]\<close>.\<close>

definition current_state :: "rule \<Rightarrow> pyval" where
  "current_state r = fst r"

definition current_symbol :: "rule \<Rightarrow> pyval" where
  "current_symbol r = fst (snd r)"

definition next_state :: "rule \<Rightarrow> pyval" where
  "next_state r = fst (snd (snd r))"

definition next_symbol :: "rule \<Rightarrow> pyval" where
  "next_symbol r = fst (snd (snd (snd r)))"

definition head_direction :: "rule \<Rightarrow> pyval" where
  "head_direction r = snd (snd (snd (snd r)))"

definition WILDCARD :: string where
  "WILDCARD = ''*''"

text \<open>
  The attributes of a \<open>TuringMachine\<close> that the engine reads or writes. The display
  attributes and \<open>live_stdout_maxlen\<close> only serve the print functions, which write to
  standard output and touch no other attribute; they are left out, and so is the pause
  between the steps of \<open>run\<close>.
\<close>

record machine =
  rules :: "rule list"
  STATE_INIT :: string
  STATE_HALT :: string
  state :: string
  head :: int
  rule :: "rule option"
  tape :: tape
  stepc :: int
  head_moves :: int
  path :: "string list"

text \<open>
  \<open>TuringMachine(rules)\<close>: the constructor stores the rules; every other attribute has its
  class-level value. The class-level \<open>head\<close> is the string \<open>STATE_HALT\<close>, a placeholder
  that is never read: the class-level tape is blank, so \<open>step\<close> raises before it
  looks at the head, and assigning a tape sets the head to the integer 0. It is 0 here.
  The class-level tape \<open>Tape()\<close> is the tape of the empty string, and the class-level path
  is the empty list.
\<close>

definition TuringMachine :: "rule list \<Rightarrow> machine" where
  "TuringMachine rs =
     \<lparr> rules = rs, STATE_INIT = ''1'', STATE_HALT = ''0'', state = ''1'', head = 0,
       rule = None, tape = Tape [], stepc = 0, head_moves = 0, path = [] \<rparr>"

definition reset :: "machine \<Rightarrow> machine" where
  "reset m =
     m\<lparr> state := STATE_INIT m, head := 0, rule := None,
        stepc := 0, head_moves := 0, path := [STATE_INIT m] \<rparr>"

text \<open>The setter of the \<open>tape\<close> property: \<open>turing.tape = value\<close>.\<close>

definition tape_setter :: "machine \<Rightarrow> string \<Rightarrow> machine" where
  "tape_setter m v = reset (m\<lparr> tape := Tape v \<rparr>)"

fun find_rule_in :: "rule list \<Rightarrow> string \<Rightarrow> string \<Rightarrow> rule option" where
  "find_rule_in [] st scan = None"
| "find_rule_in (r # rs) st scan =
     (if py_str (current_state r) = st \<and>
         (py_str (current_symbol r) = scan \<or> py_str (current_symbol r) = WILDCARD)
      then Some r else find_rule_in rs st scan)"

definition find_rule :: "machine \<Rightarrow> string \<Rightarrow> string \<Rightarrow> error + rule" where
  "find_rule m st scan =
     (case find_rule_in (rules m) st scan of
        Some r \<Rightarrow> Inr r
      | None \<Rightarrow> Inl (RuleNotFound st scan))"

text \<open>
  \<open>step\<close>: a raise leaves behind the machine as mutated so far, so the error comes with
  that machine.
\<close>

definition step :: "machine \<Rightarrow> (error \<times> machine) + machine" where
  "step m =
     (if is_blank (tape m) then Inl (TapeBlank, m)
      else
        let m1 = m\<lparr> stepc := stepc m + 1 \<rparr>;
            scan = tape_get (tape m1) (head m1)
        in (case find_rule m1 (state m1) scan of
              Inl e \<Rightarrow> Inl (e, m1)
            | Inr r \<Rightarrow>
               (let m2 = m1\<lparr> rule := Some r \<rparr>;
                    replace = (if py_str (next_symbol r) \<noteq> WILDCARD
                               then py_str (next_symbol r) else scan);
                    m3 = m2\<lparr> tape := tape_set (tape m2) (head m2) replace \<rparr>
                in (case py_int (head_direction r) of
                      Inl e \<Rightarrow> Inl (e, m3)
                    | Inr d \<Rightarrow>
                       (let m4 = m3\<lparr> state := py_str (next_state r) \<rparr>;
                            m5 = m4\<lparr> head := head m4 + d \<rparr>;
                            m6 = (if d \<noteq> 0 then m5\<lparr> head_moves := head_moves m5 + 1 \<rparr>
                                  else m5)
                        in Inr (m6\<lparr> path := path m6 @ [state m6] \<rparr>))))))"

text \<open>
  \<open>run\<close>: the loop may go on forever, so the result is optional; it returns the tape
  (here with the machine it leaves behind).
\<close>

partial_function (option) run :: "machine \<Rightarrow> ((error \<times> machine) + (tape \<times> machine)) option" where
  "run m =
     (if state m \<noteq> STATE_HALT m then
        (case step m of
           Inl e \<Rightarrow> Some (Inl e)
         | Inr m' \<Rightarrow> run m')
      else Some (Inr (tape m, m)))"

section \<open>The rule-file parser\<close>

datatype mode = Std | Cfg | Cmt

text \<open>
  The local variables of \<open>_read_rules\<close> that its inner function \<open>state_reader\<close>
  updates. The variable \<open>state\<close> (one of \<open>'std'\<close>, \<open>'cfg'\<close>, \<open>'cmt'\<close>) is the field
  \<open>mode\<close>, and \<open>rules\<close> is the field \<open>rules_out\<close>, since the machine has attributes of
  these names. The dictionary \<open>cfg\<close> is a map.
\<close>

record reader =
  rules_out :: "rule list"
  cfg :: "string \<rightharpoonup> string"
  tup_buf :: "string list"
  sym_buf :: string
  cfg_buf :: string
  symc :: int
  mode :: mode

definition is_space :: "char \<Rightarrow> bool" where
  \<comment> \<open>The class \<open>\\s\<close> of a string pattern: TAB, LF, VT, FF, CR, FS, GS, RS, US and the
      space, and beyond ASCII the next-line character 0x85 and the no-break space 0xA0.\<close>
  "is_space c =
     (let n = (of_char c :: nat)
      in (9 \<le> n \<and> n \<le> 13) \<or> (28 \<le> n \<and> n \<le> 32) \<or> n = 133 \<or> n = 160)"

definition is_upper :: "char \<Rightarrow> bool" where
  \<comment> \<open>The characters that \<open>lower()\<close> changes: A to Z, and beyond ASCII 0xC0 to 0xDE without
      the multiplication sign 0xD7.\<close>
  "is_upper c =
     (let n = (of_char c :: nat)
      in (65 \<le> n \<and> n \<le> 90) \<or> (192 \<le> n \<and> n \<le> 214) \<or> (216 \<le> n \<and> n \<le> 222))"

definition is_alnum :: "char \<Rightarrow> bool" where
  \<comment> \<open>Letters and numeric characters: the ASCII digits and letters, and beyond ASCII
      0xAA, 0xB2, 0xB3, 0xB5, 0xB9, 0xBA, 0xBC to 0xBE and 0xC0 to 0xFF without the
      multiplication sign 0xD7 and the division sign 0xF7.\<close>
  "is_alnum c =
     (let n = (of_char c :: nat)
      in (48 \<le> n \<and> n \<le> 57) \<or> (65 \<le> n \<and> n \<le> 90) \<or> (97 \<le> n \<and> n \<le> 122) \<or>
         n = 170 \<or> n = 178 \<or> n = 179 \<or> n = 181 \<or> n = 185 \<or> n = 186 \<or>
         (188 \<le> n \<and> n \<le> 190) \<or> (192 \<le> n \<and> n \<le> 214) \<or> (216 \<le> n \<and> n \<le> 246) \<or>
         248 \<le> n)"

definition is_word :: "char \<Rightarrow> bool" where
  \<comment> \<open>The class \<open>\\w\<close> of a string pattern: letters, numeric characters and the underscore.\<close>
  "is_word c = (is_alnum c \<or> c = CHR ''_'')"

definition sym_char :: "char \<Rightarrow> bool" where
  \<comment> \<open>\<open>match("[-\\w\\*]", char)\<close>\<close>
  "sym_char c = (c = CHR ''-'' \<or> is_word c \<or> c = CHR ''*'')"

definition cfg_char :: "char \<Rightarrow> bool" where
  \<comment> \<open>\<open>match("[^\\s\\:]", char)\<close>\<close>
  "cfg_char c = (\<not> is_space c \<and> c \<noteq> CHR '':'')"

definition lower_char :: "char \<Rightarrow> char" where
  "lower_char c = (if is_upper c then char_of ((of_char c :: nat) + 32) else c)"

definition lower :: "string \<Rightarrow> string" where
  "lower s = map lower_char s"

text \<open>\<open>tuple(tup_buf)\<close>, for the buffer of five symbols; the symbols are strings.\<close>

fun tuple5 :: "string list \<Rightarrow> rule list" where
  "tuple5 [a, b, c, d, e] = [(PStr a, PStr b, PStr c, PStr d, PStr e)]"
| "tuple5 _ = []"

definition std_branch :: "char \<Rightarrow> bool \<Rightarrow> reader \<Rightarrow> reader" where
  \<comment> \<open>The body of \<open>if state == 'std'\<close>.\<close>
  "std_branch char eof s =
     (if sym_char char \<and> \<not> eof then s\<lparr> sym_buf := sym_buf s @ [char] \<rparr>
      else if char = CHR '':'' \<and> \<not> eof then
        s\<lparr> cfg_buf := lower (sym_buf s), sym_buf := [], mode := Cfg \<rparr>
      else if sym_buf s \<noteq> [] then
        (let s1 = s\<lparr> tup_buf := tup_buf s @ [sym_buf s], sym_buf := [], symc := symc s + 1 \<rparr>
         in if length (tup_buf s1) = 5
            then s1\<lparr> rules_out := rules_out s1 @ tuple5 (tup_buf s1), tup_buf := [] \<rparr>
            else s1)
      else if char = CHR ''#'' then s\<lparr> mode := Cmt \<rparr>
      else s)"

definition cfg_branch :: "char \<Rightarrow> bool \<Rightarrow> reader \<Rightarrow> reader" where
  \<comment> \<open>The body of \<open>if state == 'cfg'\<close>.\<close>
  "cfg_branch char eof s =
     (if cfg_char char \<and> \<not> eof then s\<lparr> sym_buf := sym_buf s @ [char] \<rparr>
      else if sym_buf s \<noteq> [] then
        s\<lparr> cfg := (cfg s)(cfg_buf s \<mapsto> sym_buf s), cfg_buf := [], sym_buf := [], mode := Std \<rparr>
      else s)"

definition cmt_branch :: "char \<Rightarrow> reader \<Rightarrow> reader" where
  \<comment> \<open>The body of \<open>elif state == 'cmt'\<close>.\<close>
  "cmt_branch char s = (if char = CHR 0x0A then s\<lparr> mode := Std \<rparr> else s)"

text \<open>
  \<open>state_reader\<close>, with the variables \<open>char\<close> and \<open>eof\<close> of the enclosing function as
  arguments. The second test is an \<open>if\<close>, not an \<open>elif\<close>: it sees the mode that the first
  block has just set.
\<close>

definition state_reader :: "char \<Rightarrow> bool \<Rightarrow> reader \<Rightarrow> reader" where
  "state_reader char eof s =
     (let s1 = (if mode s = Std then std_branch char eof s else s)
      in if mode s1 = Cfg then cfg_branch char eof s1
         else if mode s1 = Cmt then cmt_branch char s1
         else s1)"

definition reader_init :: reader where
  "reader_init =
     \<lparr> rules_out = [], cfg = Map.empty, tup_buf = [], sym_buf = [], cfg_buf = [],
       symc = 0, mode = Std \<rparr>"

definition read_chars :: "string \<Rightarrow> reader \<Rightarrow> reader" where
  \<comment> \<open>The two nested loops: \<open>state_reader\<close> on every character of every line, in order.\<close>
  "read_chars file s = fold (\<lambda>char. state_reader char False) file s"

text \<open>
  \<open>_read_rules\<close> on the text of the file. After the loops \<open>state_reader\<close> runs once more
  with \<open>eof\<close> set, on the last character read; an empty file has bound no character, and
  the call raises \<open>NameError\<close>.
\<close>

definition read_final :: "string \<Rightarrow> reader" where
  "read_final file = state_reader (last file) True (read_chars file reader_init)"

definition read_rules :: "string \<Rightarrow> error + (rule list \<times> (string \<rightharpoonup> string))" where
  "read_rules file =
     (if file = [] then Inl NameError
      else
        let s = read_final file
        in if symc s mod 5 \<noteq> 0 then Inl (IncorrectSymbolCount (symc s))
           else Inr (rules_out s, cfg s))"

text \<open>
  The loading part of the main program: the machine is built from the parsed rules, and
  the entries \<open>init\<close> and \<open>halt\<close> of the configuration, when present, replace the labels.
\<close>

definition load :: "rule list \<times> (string \<rightharpoonup> string) \<Rightarrow> machine" where
  "load rc =
     (let turing = TuringMachine (fst rc);
          turing1 = (case snd rc ''init'' of
                       Some v \<Rightarrow> turing\<lparr> STATE_INIT := v \<rparr>
                     | None \<Rightarrow> turing)
      in (case snd rc ''halt'' of
            Some v \<Rightarrow> turing1\<lparr> STATE_HALT := v \<rparr>
          | None \<Rightarrow> turing1))"

section \<open>Notions used to state the properties\<close>

text \<open>
  The matching predicate in the words of the specification: the rule's source state is the
  state, and its symbol is the scanned symbol or the wildcard.
\<close>

definition rule_matches :: "rule \<Rightarrow> string \<Rightarrow> symbol \<Rightarrow> bool" where
  "rule_matches r st scan =
     (py_str (current_state r) = st \<and>
      (py_str (current_symbol r) = scan \<or> py_str (current_symbol r) = WILDCARD))"

text \<open>\<open>n\<close> calls of \<open>step\<close> in a row, stopping at the first one that raises.\<close>

fun steps :: "nat \<Rightarrow> machine \<Rightarrow> (error \<times> machine) + machine" where
  "steps 0 m = Inr m"
| "steps (Suc n) m = (case step m of Inl e \<Rightarrow> Inl e | Inr m' \<Rightarrow> steps n m')"

text \<open>
  The symbol tokens that the reader has taken so far: the fields of the rules it has
  completed, followed by the symbols waiting in the tuple buffer.
\<close>

definition rule_fields :: "rule \<Rightarrow> string list" where
  "rule_fields r =
     [py_str (current_state r), py_str (current_symbol r), py_str (next_state r),
      py_str (next_symbol r), py_str (head_direction r)]"

definition symbol_tokens :: "reader \<Rightarrow> string list" where
  "symbol_tokens s = concat (map rule_fields (rules_out s)) @ tup_buf s"

text \<open>A text made of the given tokens, each followed by one space.\<close>

definition spaced :: "string list \<Rightarrow> string" where
  "spaced ts = concat (map (\<lambda>t. t @ '' '') ts)"

text \<open>
  The counter of the reader agrees with the tokens it has taken, and the tuple buffer
  never holds five symbols between two calls.
\<close>

definition reader_inv :: "reader \<Rightarrow> bool" where
  "reader_inv s = (symc s = int (length (symbol_tokens s)) \<and> length (tup_buf s) < 5)"

text \<open>The third branch of the symbol mode: the buffered symbol becomes a token.\<close>

definition flush :: "reader \<Rightarrow> reader" where
  "flush s =
     (let s1 = s\<lparr> tup_buf := tup_buf s @ [sym_buf s], sym_buf := [], symc := symc s + 1 \<rparr>
      in if length (tup_buf s1) = 5
         then s1\<lparr> rules_out := rules_out s1 @ tuple5 (tup_buf s1), tup_buf := [] \<rparr>
         else s1)"

text \<open>
  The symbol tokens of a text, read off the text itself. In symbol mode a maximal run of
  symbol characters is a token, unless a colon follows it directly: then it is a
  configuration key. After a colon comes the configuration value: the characters that are
  white space or colons are passed over, then the maximal run of other characters is the
  value, and the character that ends it is consumed (\<open>after_value\<close> is the text behind
  it). A \<open>#\<close> that does not end a run of symbol characters starts a comment, which lasts up
  to and including the next newline (\<open>after_comment\<close> is the text behind it). Any other
  character separates. A run that reaches the end of the text is a token as well.
\<close>

definition after_value :: "string \<Rightarrow> string" where
  "after_value cs = drop 1 (dropWhile cfg_char (dropWhile (\<lambda>c. \<not> cfg_char c) cs))"

definition after_comment :: "string \<Rightarrow> string" where
  "after_comment cs = drop 1 (dropWhile (\<lambda>c. c \<noteq> CHR 0x0A) cs)"

function text_tokens :: "string \<Rightarrow> string list" where
  "text_tokens [] = []"
| "text_tokens (c # cs) =
     (if sym_char c then
        (case dropWhile sym_char cs of
           [] \<Rightarrow> [c # takeWhile sym_char cs]
         | d # ds \<Rightarrow>
             if d = CHR '':'' then text_tokens (after_value ds)
             else (c # takeWhile sym_char cs) # text_tokens ds)
      else if c = CHR '':'' then text_tokens (after_value cs)
      else if c = CHR ''#'' then text_tokens (after_comment cs)
      else text_tokens cs)"
  by pat_completeness auto
termination
proof (relation "measure length")
  have v: "length (after_value xs) \<le> length xs" for xs
  proof -
    have "length (after_value xs) \<le> length (dropWhile cfg_char (dropWhile (\<lambda>c. \<not> cfg_char c) xs))"
      by (simp add: after_value_def)
    also have "\<dots> \<le> length (dropWhile (\<lambda>c. \<not> cfg_char c) xs)"
      by (rule length_dropWhile_le)
    also have "\<dots> \<le> length xs"
      by (rule length_dropWhile_le)
    finally show ?thesis .
  qed
  have k: "length (after_comment xs) \<le> length xs" for xs
  proof -
    have "length (after_comment xs) \<le> length (dropWhile (\<lambda>c. c \<noteq> CHR 0x0A) xs)"
      by (simp add: after_comment_def)
    also have "\<dots> \<le> length xs"
      by (rule length_dropWhile_le)
    finally show ?thesis .
  qed
  show "wf (measure length)" by simp
  {
    fix c :: char and cs d ds
    assume "dropWhile sym_char cs = d # ds"
    then have "length ds < length (dropWhile sym_char cs)" by simp
    also have "\<dots> \<le> length cs" by (rule length_dropWhile_le)
    finally have l: "length ds < length cs" .
    show "(after_value ds, c # cs) \<in> measure length"
      using l v [of ds] by simp
    show "(ds, c # cs) \<in> measure length"
      using l by simp
  }
  {
    fix c :: char and cs :: string
    show "(after_value cs, c # cs) \<in> measure length"
      using v [of cs] by (simp add: less_Suc_eq_le)
    show "(after_comment cs, c # cs) \<in> measure length"
      using k [of cs] by (simp add: less_Suc_eq_le)
    show "(cs, c # cs) \<in> measure length"
      by simp
  }
qed

text \<open>The tokens that the final call of the reader will have taken: a pending symbol counts.\<close>

definition final_tokens :: "reader \<Rightarrow> string list" where
  "final_tokens s =
     symbol_tokens s @ (if mode s = Std \<and> sym_buf s \<noteq> [] then [sym_buf s] else [])"

section \<open>The tape and the rule table\<close>

lemma tape_get_set_same: "tape_get (tape_set t i s) i = s"
  by (simp add: tape_get_def tape_set_def)

lemma map_of_filter_fst: "j \<noteq> i \<Longrightarrow> map_of (filter (\<lambda>kv. fst kv \<noteq> i) t) j = map_of t j"
  by (induction t) auto

lemma tape_get_set_other: "j \<noteq> i \<Longrightarrow> tape_get (tape_set t i s) j = tape_get t j"
  by (simp add: tape_get_def tape_set_def map_of_filter_fst)

lemma map_of_Tape:
  "map_of (Tape v) i = (if 0 \<le> i \<and> i < int (length v) then Some [v ! nat i] else None)"
proof (induction v arbitrary: i rule: rev_induct)
  case Nil
  show ?case by (simp add: Tape_def)
next
  case (snoc c v)
  have "Tape (v @ [c]) = Tape v @ [(int (length v), [c])]"
    by (simp add: Tape_def)
  moreover have "int (length v) \<notin> fst ` set (Tape v)"
    by (auto simp: Tape_def dest!: set_zip_leftD)
  ultimately show ?case
    using snoc.IH [of i]
    by (auto simp: map_add_def nth_append map_of_eq_None_iff split: option.splits)
qed

lemma tape_get_Tape:
  "tape_get (Tape v) i = (if 0 \<le> i \<and> i < int (length v) then [v ! nat i] else BLANK)"
  by (simp add: tape_get_def map_of_Tape)

lemma is_blank_Tape: "is_blank (Tape v) \<longleftrightarrow> v = []"
  by (cases v) (simp_all add: is_blank_def Tape_def upt_rec)

lemma find_rule_stepc [simp]: "find_rule (m\<lparr> stepc := n \<rparr>) st scan = find_rule m st scan"
  by (simp add: find_rule_def)

lemma find_rule_in_Some:
  "find_rule_in rs st scan = Some r \<longleftrightarrow>
     (\<exists>i<length rs. rs ! i = r \<and> rule_matches r st scan \<and>
        (\<forall>j<i. \<not> rule_matches (rs ! j) st scan))"
proof (induction rs)
  case Nil
  show ?case by simp
next
  case (Cons a rs)
  show ?case
  proof (cases "rule_matches a st scan")
    case True
    then have "find_rule_in (a # rs) st scan = Some a"
      by (simp add: rule_matches_def)
    moreover have "(\<exists>i<length (a # rs). (a # rs) ! i = r \<and> rule_matches r st scan \<and>
        (\<forall>j<i. \<not> rule_matches ((a # rs) ! j) st scan)) \<longleftrightarrow> a = r"
    proof
      assume "\<exists>i<length (a # rs). (a # rs) ! i = r \<and> rule_matches r st scan \<and>
        (\<forall>j<i. \<not> rule_matches ((a # rs) ! j) st scan)"
      then obtain i where i: "(a # rs) ! i = r" "\<forall>j<i. \<not> rule_matches ((a # rs) ! j) st scan"
        by blast
      have "i = 0"
      proof (rule ccontr)
        assume "i \<noteq> 0"
        then have "\<not> rule_matches ((a # rs) ! 0) st scan" using i(2) by blast
        with True show False by simp
      qed
      with i(1) show "a = r" by simp
    next
      assume "a = r"
      with True show "\<exists>i<length (a # rs). (a # rs) ! i = r \<and> rule_matches r st scan \<and>
        (\<forall>j<i. \<not> rule_matches ((a # rs) ! j) st scan)"
        by (intro exI [of _ 0]) simp
    qed
    ultimately show ?thesis by auto
  next
    case False
    then have eq: "find_rule_in (a # rs) st scan = find_rule_in rs st scan"
      by (auto simp: rule_matches_def)
    have "(\<exists>i<length (a # rs). (a # rs) ! i = r \<and> rule_matches r st scan \<and>
        (\<forall>j<i. \<not> rule_matches ((a # rs) ! j) st scan)) \<longleftrightarrow>
      (\<exists>i<length rs. rs ! i = r \<and> rule_matches r st scan \<and>
        (\<forall>j<i. \<not> rule_matches (rs ! j) st scan))" (is "?L \<longleftrightarrow> ?R")
    proof
      assume ?L
      then obtain i where i: "i < length (a # rs)" "(a # rs) ! i = r" "rule_matches r st scan"
        "\<forall>j<i. \<not> rule_matches ((a # rs) ! j) st scan" by blast
      from i(2,3) False obtain k where k: "i = Suc k" by (cases i) auto
      have "\<forall>j<k. \<not> rule_matches (rs ! j) st scan"
      proof (intro allI impI)
        fix j assume "j < k"
        then have "Suc j < i" using k by simp
        with i(4) have "\<not> rule_matches ((a # rs) ! Suc j) st scan" by blast
        then show "\<not> rule_matches (rs ! j) st scan" by simp
      qed
      with i k show ?R by (intro exI [of _ k]) simp
    next
      assume ?R
      then obtain i where i: "i < length rs" "rs ! i = r" "rule_matches r st scan"
        "\<forall>j<i. \<not> rule_matches (rs ! j) st scan" by blast
      have "\<forall>j<Suc i. \<not> rule_matches ((a # rs) ! j) st scan"
      proof (intro allI impI)
        fix j assume "j < Suc i"
        then show "\<not> rule_matches ((a # rs) ! j) st scan"
          using False i(4) by (cases j) auto
      qed
      with i show ?L by (intro exI [of _ "Suc i"]) simp
    qed
    with eq Cons.IH show ?thesis by simp
  qed
qed

lemma find_rule_in_None:
  "find_rule_in rs st scan = None \<longleftrightarrow> (\<forall>r\<in>set rs. \<not> rule_matches r st scan)"
  by (induction rs) (auto simp: rule_matches_def)

text \<open>
  C3. \<open>find_rule\<close> returns the rule at the least index of the table that matches the state
  and the symbol (source state equal to the state, symbol equal to the scanned symbol or
  the wildcard), and it raises \<open>RuleNotFound(state, symbol)\<close> exactly when no rule of the
  table matches.
\<close>

theorem find_rule_first_match:
  "(find_rule m st scan = Inr r \<longleftrightarrow>
      (\<exists>i<length (rules m). rules m ! i = r \<and> rule_matches r st scan \<and>
         (\<forall>j<i. \<not> rule_matches (rules m ! j) st scan))) \<and>
   (find_rule m st scan = Inl e \<longleftrightarrow>
      (e = RuleNotFound st scan \<and> (\<forall>r\<in>set (rules m). \<not> rule_matches r st scan)))"
proof
  show "find_rule m st scan = Inr r \<longleftrightarrow>
      (\<exists>i<length (rules m). rules m ! i = r \<and> rule_matches r st scan \<and>
         (\<forall>j<i. \<not> rule_matches (rules m ! j) st scan))"
    using find_rule_in_Some [of "rules m" st scan r]
    by (auto simp: find_rule_def split: option.splits)
  show "find_rule m st scan = Inl e \<longleftrightarrow>
      (e = RuleNotFound st scan \<and> (\<forall>r\<in>set (rules m). \<not> rule_matches r st scan))"
    using find_rule_in_None [of "rules m" st scan]
    by (auto simp: find_rule_def split: option.splits)
qed

theorem find_rule_first_match_witness:
  "find_rule (TuringMachine [(PStr ''S'', PStr ''0'', PStr ''A'', PStr ''1'', PInt 1),
                             (PStr ''S'', PStr ''*'', PStr ''B'', PStr ''*'', PInt 0)]) ''S'' ''0''
     = Inr (PStr ''S'', PStr ''0'', PStr ''A'', PStr ''1'', PInt 1) \<and>
   find_rule (TuringMachine [(PStr ''S'', PStr ''0'', PStr ''A'', PStr ''1'', PInt 1),
                             (PStr ''S'', PStr ''*'', PStr ''B'', PStr ''*'', PInt 0)]) ''T'' ''0''
     = Inl (RuleNotFound ''T'' ''0'')"
proof -
  let ?r1 = "(PStr ''S'', PStr ''0'', PStr ''A'', PStr ''1'', PInt 1)"
  let ?r2 = "(PStr ''S'', PStr ''*'', PStr ''B'', PStr ''*'', PInt 0)"
  let ?m = "TuringMachine [?r1, ?r2]"
  have "\<exists>i<length (rules ?m). rules ?m ! i = ?r1 \<and> rule_matches ?r1 ''S'' ''0'' \<and>
          (\<forall>j<i. \<not> rule_matches (rules ?m ! j) ''S'' ''0'')"
    by (intro exI [of _ 0]) (simp add: TuringMachine_def rule_matches_def current_state_def
          current_symbol_def)
  then have a: "find_rule ?m ''S'' ''0'' = Inr ?r1"
    using find_rule_first_match [of ?m "''S''" "''0''" ?r1] by blast
  have "\<forall>r\<in>set (rules ?m). \<not> rule_matches r ''T'' ''0''"
    by (simp add: TuringMachine_def rule_matches_def current_state_def)
  then have b: "find_rule ?m ''T'' ''0'' = Inl (RuleNotFound ''T'' ''0'')"
    using find_rule_first_match [of ?m "''T''" "''0''" _ "RuleNotFound ''T'' ''0''"] by blast
  from a b show ?thesis by blast
qed

section \<open>Assigning a tape\<close>

text \<open>
  C8. For every input string, the empty one included, assigning a tape replaces the owned
  tape by the tape built from that string (blank exactly when the string is empty, holding
  the characters of the string at positions 0, 1, ... and the blank symbol elsewhere) and
  resets the machine state: the state is the initial label, the head is 0, the step count
  and the count of head moves are 0, the path is the one-element list of the initial
  label, and there is no last rule. The rules and the two labels are kept.
\<close>

theorem tape_setter_resets:
  "tape (tape_setter m v) = Tape v \<and>
   (is_blank (tape (tape_setter m v)) \<longleftrightarrow> v = []) \<and>
   tape_get (tape (tape_setter m v)) i =
     (if 0 \<le> i \<and> i < int (length v) then [v ! nat i] else BLANK) \<and>
   state (tape_setter m v) = STATE_INIT m \<and>
   head (tape_setter m v) = 0 \<and>
   stepc (tape_setter m v) = 0 \<and>
   head_moves (tape_setter m v) = 0 \<and>
   path (tape_setter m v) = [STATE_INIT m] \<and>
   rule (tape_setter m v) = None \<and>
   rules (tape_setter m v) = rules m \<and>
   STATE_INIT (tape_setter m v) = STATE_INIT m \<and>
   STATE_HALT (tape_setter m v) = STATE_HALT m"
  by (simp add: tape_setter_def reset_def is_blank_Tape tape_get_Tape)

text \<open>
  C10. If the state already is the halting label when \<open>run\<close> is called, \<open>run\<close> returns the
  owned tape at once and leaves the machine exactly as it was: no call of \<open>step\<close>, no
  field and no tape cell changed.
\<close>

theorem run_when_halted:
  "state m = STATE_HALT m \<Longrightarrow> run m = Some (Inr (tape m, m))"
  by (subst run.simps) simp

theorem run_when_halted_witness:
  "run \<lparr> rules = [], STATE_INIT = ''1'', STATE_HALT = ''0'', state = ''0'', head = 3,
         rule = None, tape = [(0, ''a'')], stepc = 4, head_moves = 3, path = [''1'', ''0''] \<rparr> =
     Some (Inr ([(0, ''a'')],
       \<lparr> rules = [], STATE_INIT = ''1'', STATE_HALT = ''0'', state = ''0'', head = 3,
         rule = None, tape = [(0, ''a'')], stepc = 4, head_moves = 3, path = [''1'', ''0''] \<rparr>))"
  using run_when_halted [of "\<lparr> rules = [], STATE_INIT = ''1'', STATE_HALT = ''0'', state = ''0'',
         head = 3, rule = None, tape = [(0, ''a'')], stepc = 4, head_moves = 3,
         path = [''1'', ''0''] \<rparr>"]
  by simp

section \<open>One step\<close>

text \<open>The definitions that evaluate a step on a concrete machine.\<close>

lemmas machine_eval =
  step_def tape_setter_def reset_def TuringMachine_def Tape_def is_blank_def
  tape_get_def tape_set_def find_rule_def current_state_def current_symbol_def
  next_state_def next_symbol_def head_direction_def WILDCARD_def BLANK_def int_of_string_def
  strip_def int_space_def is_digit_def digits_value_def upt_rec Let_def

lemma step_Inr_cases:
  assumes "step m = Inr m'"
  obtains r d where
    "\<not> is_blank (tape m)"
    "find_rule m (state m) (tape_get (tape m) (head m)) = Inr r"
    "py_int (head_direction r) = Inr d"
    "m' = m\<lparr> stepc := stepc m + 1, rule := Some r,
            tape := tape_set (tape m) (head m)
                      (if py_str (next_symbol r) \<noteq> WILDCARD then py_str (next_symbol r)
                       else tape_get (tape m) (head m)),
            state := py_str (next_state r), head := head m + d,
            head_moves := (if d \<noteq> 0 then head_moves m + 1 else head_moves m),
            path := path m @ [py_str (next_state r)] \<rparr>"
  using assms
  by (auto simp: step_def Let_def split: if_splits sum.splits)

lemma py_int_error: "py_int v = Inl e \<Longrightarrow> e = ValueError"
  by (cases v) (auto simp: int_of_string_def split: list.splits if_splits)

lemma find_rule_error: "find_rule m st scan = Inl e \<Longrightarrow> e = RuleNotFound st scan"
  by (auto simp: find_rule_def split: option.splits)

lemma step_Inl_cases:
  assumes "step m = Inl (e, m')"
  shows "(e = TapeBlank \<and> is_blank (tape m) \<and> m' = m) \<or>
         (e = RuleNotFound (state m) (tape_get (tape m) (head m)) \<and> \<not> is_blank (tape m) \<and>
          m' = m\<lparr> stepc := stepc m + 1 \<rparr>) \<or>
         e = ValueError"
  using assms
  by (auto simp: step_def Let_def split: if_splits sum.splits
           dest: py_int_error find_rule_error)

text \<open>
  C1, as the code has it. If \<open>step\<close> raises \<open>TapeBlank\<close>, nothing has changed. If it raises
  \<open>RuleNotFound\<close>, the head, the state, the path, the last rule, the count of head moves
  and every tape cell are as before the call, and the step count has been incremented by
  one: the count is incremented before the rule is looked up.
\<close>

theorem step_failure_frame:
  assumes "step m = Inl (e, m')" and "e = TapeBlank \<or> e = RuleNotFound s c"
  shows "head m' = head m \<and> state m' = state m \<and> path m' = path m \<and> rule m' = rule m \<and>
         head_moves m' = head_moves m \<and> tape m' = tape m \<and>
         (\<forall>i. tape_get (tape m') i = tape_get (tape m) i) \<and>
         stepc m' = (if e = TapeBlank then stepc m else stepc m + 1)"
  using step_Inl_cases [OF assms(1)] assms(2) by auto

text \<open>
  The claim C1 as stated fails: on a machine without rules and the tape \<open>a\<close>, \<open>step\<close>
  raises \<open>RuleNotFound\<close> and leaves the step count at 1, where it was 0.
\<close>

theorem step_failure_counterexample:
  "stepc (tape_setter (TuringMachine []) ''a'') = 0 \<and>
   step (tape_setter (TuringMachine []) ''a'') =
     Inl (RuleNotFound ''1'' ''a'',
          \<lparr> rules = [], STATE_INIT = ''1'', STATE_HALT = ''0'', state = ''1'', head = 0,
            rule = None, tape = [(0, ''a'')], stepc = 1, head_moves = 0, path = [''1''] \<rparr>)"
  by (simp add: step_def tape_setter_def reset_def TuringMachine_def Tape_def is_blank_def
        tape_get_def find_rule_def)

theorem step_failure_frame_witness:
  "step (tape_setter (TuringMachine []) ''a'') =
     Inl (RuleNotFound ''1'' ''a'', (tape_setter (TuringMachine []) ''a'')\<lparr> stepc := 1 \<rparr>) \<and>
   head ((tape_setter (TuringMachine []) ''a'')\<lparr> stepc := 1 \<rparr>) = 0 \<and>
   tape ((tape_setter (TuringMachine []) ''a'')\<lparr> stepc := 1 \<rparr>) = [(0, ''a'')]"
proof -
  let ?m = "tape_setter (TuringMachine []) ''a''"
  have s: "step ?m = Inl (RuleNotFound ''1'' ''a'', ?m\<lparr> stepc := 1 \<rparr>)"
    by (simp add: step_def tape_setter_def reset_def TuringMachine_def Tape_def is_blank_def
        tape_get_def find_rule_def)
  have "RuleNotFound ''1'' ''a'' = TapeBlank \<or> RuleNotFound ''1'' ''a'' = RuleNotFound ''1'' ''a''"
    by simp
  from step_failure_frame [OF s this] s show ?thesis
    by (simp add: tape_setter_def reset_def TuringMachine_def Tape_def)
qed

text \<open>
  C2, as the code has it. A successful \<open>step\<close> applies the first rule matching the state
  and the scanned symbol: it sets the state to the rule's target state, adds the integer
  value of the rule's direction to the head (the whole value, not its sign), and
  increments the count of head moves exactly when that value is not zero.
\<close>

theorem step_moves_by_direction:
  assumes "step m = Inr m'"
  shows "\<exists>r d. rule m' = Some r \<and>
           find_rule m (state m) (tape_get (tape m) (head m)) = Inr r \<and>
           py_int (head_direction r) = Inr d \<and>
           state m' = py_str (next_state r) \<and>
           head m' = head m + d \<and>
           head_moves m' = (if d \<noteq> 0 then head_moves m + 1 else head_moves m)"
  using assms by (elim step_Inr_cases) auto

text \<open>
  The claim C2 as stated fails: with a rule of direction 2 the head goes from 0 to 2,
  two cells and not the one cell that the sign of 2 gives.
\<close>

theorem step_direction_counterexample:
  "head (tape_setter (TuringMachine [(PStr ''1'', PStr ''*'', PStr ''0'', PStr ''*'', PStr ''2'')])
           ''abc'') = 0 \<and>
   step (tape_setter (TuringMachine [(PStr ''1'', PStr ''*'', PStr ''0'', PStr ''*'', PStr ''2'')])
           ''abc'') =
     Inr \<lparr> rules = [(PStr ''1'', PStr ''*'', PStr ''0'', PStr ''*'', PStr ''2'')],
           STATE_INIT = ''1'', STATE_HALT = ''0'', state = ''0'', head = 2,
           rule = Some (PStr ''1'', PStr ''*'', PStr ''0'', PStr ''*'', PStr ''2''),
           tape = [(0, ''a''), (1, ''b''), (2, ''c'')], stepc = 1, head_moves = 1,
           path = [''1'', ''0''] \<rparr> \<and>
   sgn (2 :: int) = 1"
  by (simp add: step_def tape_setter_def reset_def TuringMachine_def Tape_def is_blank_def
        tape_get_def tape_set_def find_rule_def current_state_def current_symbol_def
        next_state_def next_symbol_def head_direction_def WILDCARD_def int_of_string_def
        strip_def int_space_def is_digit_def digits_value_def upt_rec)

theorem step_moves_by_direction_witness:
  "step (tape_setter (TuringMachine [(PStr ''1'', PStr ''*'', PStr ''0'', PStr ''*'', PStr ''-3'')])
           ''abc'') =
     Inr \<lparr> rules = [(PStr ''1'', PStr ''*'', PStr ''0'', PStr ''*'', PStr ''-3'')],
           STATE_INIT = ''1'', STATE_HALT = ''0'', state = ''0'', head = - 3,
           rule = Some (PStr ''1'', PStr ''*'', PStr ''0'', PStr ''*'', PStr ''-3''),
           tape = [(0, ''a''), (1, ''b''), (2, ''c'')], stepc = 1, head_moves = 1,
           path = [''1'', ''0''] \<rparr> \<and>
   py_int (PStr ''-3'') = Inr (- 3)"
proof -
  let ?r = "(PStr ''1'', PStr ''*'', PStr ''0'', PStr ''*'', PStr ''-3'')"
  let ?m = "tape_setter (TuringMachine [?r]) ''abc''"
  let ?m' = "\<lparr> rules = [?r],
           STATE_INIT = ''1'', STATE_HALT = ''0'', state = ''0'', head = - 3,
           rule = Some ?r,
           tape = [(0, ''a''), (1, ''b''), (2, ''c'')], stepc = 1, head_moves = 1,
           path = [''1'', ''0''] \<rparr>"
  have s: "step ?m = Inr ?m'"
    by (simp add: machine_eval)
  from step_moves_by_direction [OF s] obtain r d where
    "rule ?m' = Some r" "py_int (head_direction r) = Inr d" "head ?m' = head ?m + d"
    by blast
  then have "py_int (PStr ''-3'') = Inr (- 3)"
    by (auto simp: head_direction_def tape_setter_def reset_def)
  with s show ?thesis by blast
qed

lemma step_succeeds:
  assumes "\<not> is_blank (tape m)"
    and "find_rule m (state m) (tape_get (tape m) (head m)) = Inr r"
    and "py_int (head_direction r) = Inr d"
  shows "step m = Inr (m\<lparr> stepc := stepc m + 1, rule := Some r,
            tape := tape_set (tape m) (head m)
                      (if py_str (next_symbol r) \<noteq> WILDCARD then py_str (next_symbol r)
                       else tape_get (tape m) (head m)),
            state := py_str (next_state r), head := head m + d,
            head_moves := (if d \<noteq> 0 then head_moves m + 1 else head_moves m),
            path := path m @ [py_str (next_state r)] \<rparr>)"
  using assms by (simp add: step_def Let_def)

text \<open>
  C4. A successful \<open>step\<close> applies the first matching rule; if the rule's symbol to write
  is the wildcard, the cell under the head holds afterwards what was scanned there,
  otherwise it holds the rule's symbol to write. Every other cell reads as before. And
  the step does succeed, with this write, whenever the tape is not blank, a rule matches
  and the rule's direction is an integer.
\<close>

theorem step_writes:
  "(step m = Inr m' \<longrightarrow>
      (\<exists>r. rule m' = Some r \<and>
           find_rule m (state m) (tape_get (tape m) (head m)) = Inr r \<and>
           tape_get (tape m') (head m) =
             (if py_str (next_symbol r) = WILDCARD then tape_get (tape m) (head m)
              else py_str (next_symbol r)) \<and>
           (\<forall>i. i \<noteq> head m \<longrightarrow> tape_get (tape m') i = tape_get (tape m) i))) \<and>
   (\<not> is_blank (tape m) \<and>
    find_rule m (state m) (tape_get (tape m) (head m)) = Inr r \<and>
    py_int (head_direction r) = Inr d \<longrightarrow>
      (\<exists>m''. step m = Inr m'' \<and> rule m'' = Some r \<and>
           tape_get (tape m'') (head m) =
             (if py_str (next_symbol r) = WILDCARD then tape_get (tape m) (head m)
              else py_str (next_symbol r)) \<and>
           (\<forall>i. i \<noteq> head m \<longrightarrow> tape_get (tape m'') i = tape_get (tape m) i)))"
proof (intro conjI impI)
  assume "step m = Inr m'"
  then show "\<exists>r. rule m' = Some r \<and>
           find_rule m (state m) (tape_get (tape m) (head m)) = Inr r \<and>
           tape_get (tape m') (head m) =
             (if py_str (next_symbol r) = WILDCARD then tape_get (tape m) (head m)
              else py_str (next_symbol r)) \<and>
           (\<forall>i. i \<noteq> head m \<longrightarrow> tape_get (tape m') i = tape_get (tape m) i)"
    by (elim step_Inr_cases) (auto simp: tape_get_set_same tape_get_set_other)
next
  assume a: "\<not> is_blank (tape m) \<and>
    find_rule m (state m) (tape_get (tape m) (head m)) = Inr r \<and>
    py_int (head_direction r) = Inr d"
  then have "step m = Inr (m\<lparr> stepc := stepc m + 1, rule := Some r,
            tape := tape_set (tape m) (head m)
                      (if py_str (next_symbol r) \<noteq> WILDCARD then py_str (next_symbol r)
                       else tape_get (tape m) (head m)),
            state := py_str (next_state r), head := head m + d,
            head_moves := (if d \<noteq> 0 then head_moves m + 1 else head_moves m),
            path := path m @ [py_str (next_state r)] \<rparr>)"
    by (intro step_succeeds) simp_all
  then show "\<exists>m''. step m = Inr m'' \<and> rule m'' = Some r \<and>
           tape_get (tape m'') (head m) =
             (if py_str (next_symbol r) = WILDCARD then tape_get (tape m) (head m)
              else py_str (next_symbol r)) \<and>
           (\<forall>i. i \<noteq> head m \<longrightarrow> tape_get (tape m'') i = tape_get (tape m) i)"
    by (auto simp: tape_get_set_same tape_get_set_other)
qed

theorem step_writes_witness:
  "step (tape_setter (TuringMachine [(PStr ''1'', PStr ''a'', PStr ''2'', PStr ''X'', PInt 1),
                                     (PStr ''2'', PStr ''b'', PStr ''0'', PStr ''*'', PInt 0)])
           ''ab'') =
     Inr \<lparr> rules = [(PStr ''1'', PStr ''a'', PStr ''2'', PStr ''X'', PInt 1),
                    (PStr ''2'', PStr ''b'', PStr ''0'', PStr ''*'', PInt 0)],
           STATE_INIT = ''1'', STATE_HALT = ''0'', state = ''2'', head = 1,
           rule = Some (PStr ''1'', PStr ''a'', PStr ''2'', PStr ''X'', PInt 1),
           tape = [(0, ''X''), (1, ''b'')], stepc = 1, head_moves = 1,
           path = [''1'', ''2''] \<rparr> \<and>
   tape_get [(0, ''a''), (1, ''b'')] 0 = ''a'' \<and>
   tape_get [(0, ''X''), (1, ''b'')] 0 = ''X'' \<and>
   tape_get [(0, ''X''), (1, ''b'')] 1 = ''b'' \<and>
   step \<lparr> rules = [(PStr ''1'', PStr ''a'', PStr ''2'', PStr ''X'', PInt 1),
                    (PStr ''2'', PStr ''b'', PStr ''0'', PStr ''*'', PInt 0)],
           STATE_INIT = ''1'', STATE_HALT = ''0'', state = ''2'', head = 1,
           rule = Some (PStr ''1'', PStr ''a'', PStr ''2'', PStr ''X'', PInt 1),
           tape = [(0, ''X''), (1, ''b'')], stepc = 1, head_moves = 1,
           path = [''1'', ''2''] \<rparr> =
     Inr \<lparr> rules = [(PStr ''1'', PStr ''a'', PStr ''2'', PStr ''X'', PInt 1),
                    (PStr ''2'', PStr ''b'', PStr ''0'', PStr ''*'', PInt 0)],
           STATE_INIT = ''1'', STATE_HALT = ''0'', state = ''0'', head = 1,
           rule = Some (PStr ''2'', PStr ''b'', PStr ''0'', PStr ''*'', PInt 0),
           tape = [(1, ''b''), (0, ''X'')], stepc = 2, head_moves = 1,
           path = [''1'', ''2'', ''0''] \<rparr> \<and>
   tape_get [(1, ''b''), (0, ''X'')] 1 = ''b''"
proof -
  let ?r1 = "(PStr ''1'', PStr ''a'', PStr ''2'', PStr ''X'', PInt 1)"
  let ?r2 = "(PStr ''2'', PStr ''b'', PStr ''0'', PStr ''*'', PInt 0)"
  let ?m = "tape_setter (TuringMachine [?r1, ?r2]) ''ab''"
  let ?m1 = "\<lparr> rules = [?r1, ?r2],
           STATE_INIT = ''1'', STATE_HALT = ''0'', state = ''2'', head = 1,
           rule = Some ?r1,
           tape = [(0, ''X''), (1, ''b'')], stepc = 1, head_moves = 1,
           path = [''1'', ''2''] \<rparr>"
  let ?m2 = "\<lparr> rules = [?r1, ?r2],
           STATE_INIT = ''1'', STATE_HALT = ''0'', state = ''0'', head = 1,
           rule = Some ?r2,
           tape = [(1, ''b''), (0, ''X'')], stepc = 2, head_moves = 1,
           path = [''1'', ''2'', ''0''] \<rparr>"
  have m: "tape ?m = [(0, ''a''), (1, ''b'')]" "head ?m = 0" "state ?m = ''1''"
    by (simp_all add: machine_eval)
  have h: "\<not> is_blank (tape ?m) \<and>
           find_rule ?m (state ?m) (tape_get (tape ?m) (head ?m)) = Inr ?r1 \<and>
           py_int (head_direction ?r1) = Inr 1"
    by (simp add: machine_eval)
  from step_writes [where m = ?m and r = ?r1 and d = 1] h
  obtain m'' where w: "step ?m = Inr m''"
    "tape_get (tape m'') (head ?m) =
       (if py_str (next_symbol ?r1) = WILDCARD then tape_get (tape ?m) (head ?m)
        else py_str (next_symbol ?r1))"
    "\<forall>i. i \<noteq> head ?m \<longrightarrow> tape_get (tape m'') i = tape_get (tape ?m) i"
    by blast
  have s1: "step ?m = Inr ?m1"
    by (simp add: machine_eval)
  with w(1) have e: "m'' = ?m1" by simp
  have a: "tape_get [(0, ''a''), (1, ''b'')] 0 = ''a''"
    by (simp add: tape_get_def)
  have x: "tape_get [(0, ''X''), (1, ''b'')] 0 = ''X''"
    using w(2) unfolding e by (simp add: machine_eval)
  have b: "tape_get [(0, ''X''), (1, ''b'')] 1 = ''b''"
    using w(3) unfolding e by (simp add: machine_eval)
  have s2: "step ?m1 = Inr ?m2"
    by (simp add: machine_eval)
  from step_writes [where m = ?m1 and m' = ?m2] s2 obtain r where
    "rule ?m2 = Some r"
    "tape_get (tape ?m2) (head ?m1) =
       (if py_str (next_symbol r) = WILDCARD then tape_get (tape ?m1) (head ?m1)
        else py_str (next_symbol r))"
    by blast
  then have k: "tape_get [(1, ''b''), (0, ''X'')] 1 = ''b''"
    by (auto simp: machine_eval)
  show ?thesis
    by (intro conjI) (rule s1 a x b s2 k)+
qed

section \<open>Sequences of steps\<close>

lemma step_keeps_labels:
  "step m = Inr m' \<Longrightarrow> STATE_HALT m' = STATE_HALT m \<and> STATE_INIT m' = STATE_INIT m \<and> rules m' = rules m"
  by (elim step_Inr_cases) auto

lemma steps_keep_labels:
  "steps n m = Inr m' \<Longrightarrow> STATE_HALT m' = STATE_HALT m \<and> STATE_INIT m' = STATE_INIT m \<and> rules m' = rules m"
proof (induction n arbitrary: m)
  case 0
  then show ?case by simp
next
  case (Suc n)
  then show ?case
    by (auto split: sum.splits dest: step_keeps_labels)
qed

lemma steps_Suc_end:
  "steps (Suc n) m = (case steps n m of Inl e \<Rightarrow> Inl e | Inr m' \<Rightarrow> step m')"
proof (induction n arbitrary: m)
  case 0
  show ?case by (simp split: sum.splits)
next
  case (Suc n)
  show ?case
  proof (cases "step m")
    case (Inl e)
    then show ?thesis by simp
  next
    case (Inr m1)
    have 1: "steps (Suc (Suc n)) m = steps (Suc n) m1" using Inr by simp
    have 2: "steps (Suc n) m = steps n m1" using Inr by simp
    show ?thesis unfolding 1 2 by (rule Suc.IH)
  qed
qed

lemma step_path_invariant:
  assumes "step m = Inr m'"
    and "path m \<noteq> []" "int (length (path m)) = stepc m + 1" "last (path m) = state m"
  shows "path m' \<noteq> [] \<and> int (length (path m')) = stepc m' + 1 \<and> hd (path m') = hd (path m) \<and>
         last (path m') = state m'"
  using assms by (elim step_Inr_cases) auto

text \<open>
  C9. After a tape assignment followed by \<open>n\<close> successful calls of \<open>step\<close>, the path has
  length step count plus one (and the step count is \<open>n\<close>), its first element is the
  initial label and its last element is the current state.
\<close>

theorem path_invariant:
  assumes "steps n (tape_setter m v) = Inr m'"
  shows "int (length (path m')) = stepc m' + 1 \<and> stepc m' = int n \<and> path m' \<noteq> [] \<and>
         hd (path m') = STATE_INIT m \<and> last (path m') = state m'"
  using assms
proof (induction n arbitrary: m')
  case 0
  then show ?case by (auto simp: tape_setter_def reset_def)
next
  case (Suc n)
  from Suc.prems obtain mn where mn: "steps n (tape_setter m v) = Inr mn" "step mn = Inr m'"
    by (auto simp: steps_Suc_end simp del: steps.simps split: sum.splits)
  have c: "stepc m' = stepc mn + 1"
    by (rule step_Inr_cases [OF mn(2)]) simp
  from Suc.IH [OF mn(1)] step_path_invariant [OF mn(2)] c show ?case
    by auto
qed


theorem path_invariant_witness:
  "steps (Suc (Suc 0))
     (tape_setter (TuringMachine [(PStr ''1'', PStr ''1'', PStr ''1'', PStr ''1'', PInt 1),
                                  (PStr ''1'', PStr ''_'', PStr ''0'', PStr ''1'', PInt 0)]) ''1'') =
     Inr \<lparr> rules = [(PStr ''1'', PStr ''1'', PStr ''1'', PStr ''1'', PInt 1),
                    (PStr ''1'', PStr ''_'', PStr ''0'', PStr ''1'', PInt 0)],
           STATE_INIT = ''1'', STATE_HALT = ''0'', state = ''0'', head = 1,
           rule = Some (PStr ''1'', PStr ''_'', PStr ''0'', PStr ''1'', PInt 0),
           tape = [(1, ''1''), (0, ''1'')], stepc = 2, head_moves = 1,
           path = [''1'', ''1'', ''0''] \<rparr> \<and>
   int (length [''1'', ''1'', ''0'']) = 2 + 1"
proof -
  let ?r1 = "(PStr ''1'', PStr ''1'', PStr ''1'', PStr ''1'', PInt 1)"
  let ?r2 = "(PStr ''1'', PStr ''_'', PStr ''0'', PStr ''1'', PInt 0)"
  let ?m' = "\<lparr> rules = [?r1, ?r2],
           STATE_INIT = ''1'', STATE_HALT = ''0'', state = ''0'', head = 1,
           rule = Some ?r2,
           tape = [(1, ''1''), (0, ''1'')], stepc = 2, head_moves = 1,
           path = [''1'', ''1'', ''0''] \<rparr>"
  have s: "steps (Suc (Suc 0)) (tape_setter (TuringMachine [?r1, ?r2]) ''1'') = Inr ?m'"
    by (simp add: machine_eval)
  from path_invariant [OF s] have "int (length (path ?m')) = stepc ?m' + 1"
    by blast
  then have "int (length [''1'', ''1'', ''0'']) = 2 + 1"
    by simp
  with s show ?thesis by blast
qed

section \<open>Running to the halting label\<close>

lemma run_reaches:
  assumes "steps n m = Inr m'" and "state m' = STATE_HALT m"
    and "\<forall>k<n. \<forall>mk. steps k m = Inr mk \<longrightarrow> state mk \<noteq> STATE_HALT m"
  shows "run m = Some (Inr (tape m', m'))"
  using assms
proof (induction n arbitrary: m)
  case 0
  then show ?case by (subst run.simps) simp
next
  case (Suc n)
  from Suc.prems(1) obtain m1 where m1: "step m = Inr m1" "steps n m1 = Inr m'"
    by (auto split: sum.splits)
  have h: "STATE_HALT m1 = STATE_HALT m"
    using step_keeps_labels [OF m1(1)] by simp
  have "steps 0 m = Inr m" by simp
  with Suc.prems(3) have nh: "state m \<noteq> STATE_HALT m" by blast
  have "\<forall>k<n. \<forall>mk. steps k m1 = Inr mk \<longrightarrow> state mk \<noteq> STATE_HALT m1"
  proof (intro allI impI)
    fix k mk assume k: "k < n" "steps k m1 = Inr mk"
    then have "steps (Suc k) m = Inr mk" using m1(1) by simp
    moreover have "Suc k < Suc n" using k(1) by simp
    ultimately show "state mk \<noteq> STATE_HALT m1"
      using Suc.prems(3) h by metis
  qed
  with Suc.IH [OF m1(2)] Suc.prems(2) h have "run m1 = Some (Inr (tape m', m'))"
    by simp
  with nh m1(1) show ?case by (subst run.simps) simp
qed

lemma run_returns:
  assumes "run m = Some res"
  shows "\<forall>t m'. res = Inr (t, m') \<longrightarrow>
           (\<exists>n. steps n m = Inr m' \<and> t = tape m' \<and> state m' = STATE_HALT m \<and>
                (\<forall>k<n. \<forall>mk. steps k m = Inr mk \<longrightarrow> state mk \<noteq> STATE_HALT m))"
proof -
  define P where "P = (\<lambda>m (res :: (error \<times> machine) + (tape \<times> machine)).
           \<forall>t m'. res = Inr (t, m') \<longrightarrow>
           (\<exists>n. steps n m = Inr m' \<and> t = tape m' \<and> state m' = STATE_HALT m \<and>
                (\<forall>k<n. \<forall>mk. steps k m = Inr mk \<longrightarrow> state mk \<noteq> STATE_HALT m)))"
  have "P m res"
  proof (rule run.raw_induct [where P = P, OF _ assms])
    fix run' :: "machine \<Rightarrow> ((error \<times> machine) + (tape \<times> machine)) option"
    fix m res
    assume IH: "\<And>x y. run' x = Some y \<Longrightarrow> P x y"
    assume body: "(if state m \<noteq> STATE_HALT m
                   then case step m of Inl e \<Rightarrow> Some (Inl e) | Inr m' \<Rightarrow> run' m'
                   else Some (Inr (tape m, m))) = Some res"
    show "P m res"
    proof (cases "state m \<noteq> STATE_HALT m")
      case False
      with body have "res = Inr (tape m, m)" by simp
      with False show ?thesis
        unfolding P_def by (auto intro!: exI [of _ 0])
    next
      case True
      show ?thesis
      proof (cases "step m")
        case (Inl e)
        with True body show ?thesis unfolding P_def by auto
      next
        case (Inr m1)
        with True body have r: "run' m1 = Some res" by simp
        have h: "STATE_HALT m1 = STATE_HALT m"
          using step_keeps_labels [OF Inr] by simp
        show ?thesis
          unfolding P_def
        proof (intro allI impI)
          fix t m' assume e: "res = Inr (t, m')"
          from IH [OF r] e h obtain n where n: "steps n m1 = Inr m'" "t = tape m'"
            "state m' = STATE_HALT m"
            "\<forall>k<n. \<forall>mk. steps k m1 = Inr mk \<longrightarrow> state mk \<noteq> STATE_HALT m"
            unfolding P_def by auto
          have "\<forall>k<Suc n. \<forall>mk. steps k m = Inr mk \<longrightarrow> state mk \<noteq> STATE_HALT m"
          proof (intro allI impI)
            fix k mk assume k: "k < Suc n" "steps k m = Inr mk"
            show "state mk \<noteq> STATE_HALT m"
            proof (cases k)
              case 0
              with k(2) True show ?thesis by simp
            next
              case (Suc j)
              with k Inr have "j < n" "steps j m1 = Inr mk" by simp_all
              with n(4) show ?thesis by blast
            qed
          qed
          moreover have "steps (Suc n) m = Inr m'" using Inr n(1) by simp
          ultimately show "\<exists>n. steps n m = Inr m' \<and> t = tape m' \<and> state m' = STATE_HALT m \<and>
                  (\<forall>k<n. \<forall>mk. steps k m = Inr mk \<longrightarrow> state mk \<noteq> STATE_HALT m)"
            using n(2,3) by blast
        qed
      qed
    qed
  qed
  then show ?thesis by (simp add: P_def)
qed

lemma run_Inr_iff:
  "run m = Some (Inr (t, m')) \<longleftrightarrow>
     (\<exists>n. steps n m = Inr m' \<and> t = tape m' \<and> state m' = STATE_HALT m \<and>
          (\<forall>k<n. \<forall>mk. steps k m = Inr mk \<longrightarrow> state mk \<noteq> STATE_HALT m))"
  using run_returns [of m "Inr (t, m')"] run_reaches [of _ m m'] by blast

lemma load_labels:
  "c ''init'' = Some a \<Longrightarrow> c ''halt'' = Some z \<Longrightarrow>
     load (rs, c) = (TuringMachine rs)\<lparr> STATE_INIT := a, STATE_HALT := z \<rparr>"
  by (simp add: load_def)

text \<open>
  C7. For a rule file that parses and whose configuration has the entries \<open>init\<close> and
  \<open>halt\<close>, the loaded machine has these two as its labels, and after a tape is assigned
  it starts in the configured initial label. \<open>run\<close> then returns, with the tape of the
  machine it leaves, exactly when some number of successful steps reaches a machine whose
  state is the configured halting label and no earlier machine of the sequence is in that
  label. Only the configured label is compared: the default label \<open>0\<close> plays no part.
\<close>

theorem run_halts_at_configured_label:
  assumes "read_rules file = Inr (rs, c)" and "c ''init'' = Some a" and "c ''halt'' = Some z"
  shows "STATE_INIT (load (rs, c)) = a \<and> STATE_HALT (load (rs, c)) = z \<and>
         rules (load (rs, c)) = rs \<and>
         state (tape_setter (load (rs, c)) v) = a \<and>
         (run (tape_setter (load (rs, c)) v) = Some (Inr (t, m')) \<longleftrightarrow>
            (\<exists>n. steps n (tape_setter (load (rs, c)) v) = Inr m' \<and> t = tape m' \<and> state m' = z \<and>
               (\<forall>k<n. \<forall>mk. steps k (tape_setter (load (rs, c)) v) = Inr mk \<longrightarrow> state mk \<noteq> z)))"
proof -
  have l: "STATE_INIT (load (rs, c)) = a" "STATE_HALT (load (rs, c)) = z"
    "rules (load (rs, c)) = rs"
    using assms(2,3) by (simp_all add: load_labels TuringMachine_def)
  have h: "STATE_HALT (tape_setter (load (rs, c)) v) = z"
    using l(2) by (simp add: tape_setter_def reset_def)
  have s: "state (tape_setter (load (rs, c)) v) = a"
    using l(1) by (simp add: tape_setter_def reset_def)
  show ?thesis
    using l s run_Inr_iff [of "tape_setter (load (rs, c)) v" t m'] unfolding h by simp
qed

section \<open>The parser counts the symbols it takes\<close>

lemmas char_class_eval =
  sym_char_def cfg_char_def is_word_def is_upper_def is_alnum_def is_digit_def is_space_def

lemmas reader_eval =
  read_rules_def read_final_def read_chars_def state_reader_def std_branch_def
  cfg_branch_def cmt_branch_def reader_init_def char_class_eval lower_def lower_char_def Let_def

lemma tuple5_fields:
  "length xs = 5 \<Longrightarrow> \<exists>r. tuple5 xs = [r] \<and> rule_fields r = xs"
proof -
  assume "length xs = 5"
  then obtain a b c d e where "xs = [a, b, c, d, e]"
    by (auto simp: length_Suc_conv eval_nat_numeral)
  then show ?thesis
    by (simp add: rule_fields_def current_state_def current_symbol_def next_state_def
          next_symbol_def head_direction_def)
qed

lemma flush_tokens:
  "symbol_tokens (flush s) = symbol_tokens s @ [sym_buf s]"
proof (cases "length (tup_buf s @ [sym_buf s]) = 5")
  case True
  from tuple5_fields [OF True] obtain r where
    r: "tuple5 (tup_buf s @ [sym_buf s]) = [r]" "rule_fields r = tup_buf s @ [sym_buf s]"
    by blast
  with True show ?thesis
    by (simp add: flush_def symbol_tokens_def Let_def)
next
  case False
  then show ?thesis
    by (simp add: flush_def symbol_tokens_def Let_def)
qed

lemma flush_fields:
  "mode (flush s) = mode s" "sym_buf (flush s) = []" "cfg (flush s) = cfg s"
  "symc (flush s) = symc s + 1" "cfg_buf (flush s) = cfg_buf s"
  by (simp_all add: flush_def Let_def)

lemma flush_tup_buf:
  "length (tup_buf s) < 5 \<Longrightarrow> length (tup_buf (flush s)) < 5"
  by (auto simp: flush_def Let_def)

lemma flush_inv: "reader_inv s \<Longrightarrow> reader_inv (flush s)"
  by (simp add: reader_inv_def flush_tokens flush_fields flush_tup_buf)

lemma std_branch_cases:
  "std_branch char eof s = s\<lparr> sym_buf := sym_buf s @ [char] \<rparr> \<or>
   std_branch char eof s = s\<lparr> cfg_buf := lower (sym_buf s), sym_buf := [], mode := Cfg \<rparr> \<or>
   std_branch char eof s = flush s \<or>
   std_branch char eof s = s\<lparr> mode := Cmt \<rparr> \<or>
   std_branch char eof s = s"
  by (simp add: std_branch_def flush_def Let_def)

lemma std_branch_inv: "reader_inv s \<Longrightarrow> reader_inv (std_branch char eof s)"
  using std_branch_cases [of char eof s] flush_inv [of s]
  by (auto simp: reader_inv_def symbol_tokens_def)

lemma cfg_branch_inv: "reader_inv s \<Longrightarrow> reader_inv (cfg_branch char eof s)"
  by (simp add: cfg_branch_def reader_inv_def symbol_tokens_def)

lemma cmt_branch_inv: "reader_inv s \<Longrightarrow> reader_inv (cmt_branch char s)"
  by (simp add: cmt_branch_def reader_inv_def symbol_tokens_def)

lemma state_reader_inv: "reader_inv s \<Longrightarrow> reader_inv (state_reader char eof s)"
  by (simp add: state_reader_def Let_def std_branch_inv cfg_branch_inv cmt_branch_inv)

lemma read_chars_inv: "reader_inv s \<Longrightarrow> reader_inv (read_chars cs s)"
  unfolding read_chars_def
  by (induction cs arbitrary: s) (simp_all add: state_reader_inv)

lemma reader_init_inv: "reader_inv reader_init"
  by (simp add: reader_inv_def reader_init_def symbol_tokens_def)

lemma read_final_inv: "reader_inv (read_final file)"
  by (simp add: read_final_def state_reader_inv read_chars_inv reader_init_inv)

lemma symc_read_final: "symc (read_final file) = int (length (symbol_tokens (read_final file)))"
  using read_final_inv [of "file"] by (simp add: reader_inv_def)

lemma read_rules_count:
  "read_rules file = Inl (IncorrectSymbolCount n) \<longleftrightarrow>
     file \<noteq> [] \<and> n = int (length (symbol_tokens (read_final file))) \<and> n mod 5 \<noteq> 0"
  by (auto simp: read_rules_def Let_def symc_read_final)


lemma state_reader_sym:
  "mode s = Std \<Longrightarrow> sym_char c \<Longrightarrow> state_reader c False s = s\<lparr> sym_buf := sym_buf s @ [c] \<rparr>"
  by (simp add: state_reader_def std_branch_def Let_def)

lemma read_chars_token:
  "mode s = Std \<Longrightarrow> \<forall>c\<in>set t. sym_char c \<Longrightarrow> read_chars t s = s\<lparr> sym_buf := sym_buf s @ t \<rparr>"
proof (induction t arbitrary: s)
  case Nil
  show ?case by (simp add: read_chars_def)
next
  case (Cons c t)
  have "read_chars (c # t) s = read_chars t (state_reader c False s)"
    by (simp add: read_chars_def)
  also have "state_reader c False s = s\<lparr> sym_buf := sym_buf s @ [c] \<rparr>"
    using Cons.prems by (simp add: state_reader_sym)
  also have "read_chars t (s\<lparr> sym_buf := sym_buf s @ [c] \<rparr>) =
      (s\<lparr> sym_buf := sym_buf s @ [c] \<rparr>)\<lparr> sym_buf := sym_buf (s\<lparr> sym_buf := sym_buf s @ [c] \<rparr>) @ t \<rparr>"
    using Cons.prems by (intro Cons.IH) simp_all
  finally show ?case by simp
qed

lemma state_reader_space:
  "mode s = Std \<Longrightarrow> sym_buf s \<noteq> [] \<Longrightarrow> state_reader (CHR '' '') False s = flush s"
  by (simp add: state_reader_def std_branch_def flush_def Let_def char_class_eval)

lemma read_chars_append: "read_chars (xs @ ys) s = read_chars ys (read_chars xs s)"
  by (simp add: read_chars_def)

lemma read_chars_spaced_token:
  assumes "mode s = Std" "sym_buf s = []" "t \<noteq> []" "\<forall>c\<in>set t. sym_char c"
  shows "read_chars (t @ '' '') s = flush (s\<lparr> sym_buf := t \<rparr>)"
proof -
  have "read_chars (t @ '' '') s = read_chars '' '' (read_chars t s)"
    by (rule read_chars_append)
  also have "read_chars t s = s\<lparr> sym_buf := t \<rparr>"
    using assms by (simp add: read_chars_token)
  also have "read_chars '' '' (s\<lparr> sym_buf := t \<rparr>) = state_reader (CHR '' '') False (s\<lparr> sym_buf := t \<rparr>)"
    by (simp add: read_chars_def)
  also have "\<dots> = flush (s\<lparr> sym_buf := t \<rparr>)"
    using assms by (simp add: state_reader_space)
  finally show ?thesis .
qed

lemma symbol_tokens_sym_buf [simp]: "symbol_tokens (s\<lparr> sym_buf := t \<rparr>) = symbol_tokens s"
  by (simp add: symbol_tokens_def)

lemma read_chars_spaced:
  assumes "mode s = Std" "sym_buf s = []" "\<forall>t\<in>set ts. t \<noteq> [] \<and> (\<forall>c\<in>set t. sym_char c)"
  shows "mode (read_chars (spaced ts) s) = Std \<and> sym_buf (read_chars (spaced ts) s) = [] \<and>
         symbol_tokens (read_chars (spaced ts) s) = symbol_tokens s @ ts"
  using assms
proof (induction ts arbitrary: s)
  case Nil
  then show ?case by (simp add: spaced_def read_chars_def)
next
  case (Cons t ts)
  let ?s1 = "flush (s\<lparr> sym_buf := t \<rparr>)"
  have t: "t \<noteq> []" "\<forall>c\<in>set t. sym_char c" using Cons.prems(3) by simp_all
  have "spaced (t # ts) = (t @ '' '') @ spaced ts"
    by (simp add: spaced_def)
  then have "read_chars (spaced (t # ts)) s = read_chars (spaced ts) (read_chars (t @ '' '') s)"
    by (simp only: read_chars_append)
  also have "read_chars (t @ '' '') s = ?s1"
    using Cons.prems(1,2) t by (rule read_chars_spaced_token)
  finally have e: "read_chars (spaced (t # ts)) s = read_chars (spaced ts) ?s1" .
  have m: "mode ?s1 = Std" "sym_buf ?s1 = []"
    using Cons.prems(1) by (simp_all add: flush_fields)
  have k: "symbol_tokens ?s1 = symbol_tokens s @ [t]"
    by (simp add: flush_tokens)
  from Cons.IH [OF m] Cons.prems(3) k show ?case
    unfolding e by simp
qed

lemma last_spaced: "ts \<noteq> [] \<Longrightarrow> last (spaced ts) = CHR '' ''"
  by (induction ts) (auto simp: spaced_def)

lemma spaced_nonempty: "ts \<noteq> [] \<Longrightarrow> spaced ts \<noteq> []"
  by (cases ts) (simp_all add: spaced_def)

lemma state_reader_eof_space:
  "mode s = Std \<Longrightarrow> sym_buf s = [] \<Longrightarrow> state_reader (CHR '' '') True s = s"
  by (simp add: state_reader_def std_branch_def Let_def)

lemma read_final_spaced:
  assumes "ts \<noteq> []" "\<forall>t\<in>set ts. t \<noteq> [] \<and> (\<forall>c\<in>set t. sym_char c)"
  shows "symbol_tokens (read_final (spaced ts)) = ts"
proof -
  have i: "mode reader_init = Std" "sym_buf reader_init = []" "symbol_tokens reader_init = []"
    by (simp_all add: reader_init_def symbol_tokens_def)
  from read_chars_spaced [OF i(1,2) assms(2)] i(3)
  have r: "mode (read_chars (spaced ts) reader_init) = Std"
    "sym_buf (read_chars (spaced ts) reader_init) = []"
    "symbol_tokens (read_chars (spaced ts) reader_init) = ts"
    by simp_all
  show ?thesis
    using r by (simp add: read_final_def last_spaced [OF assms(1)] state_reader_eof_space)
qed

section \<open>Comments\<close>

text \<open>
  With an empty symbol buffer, \<open>#\<close> starts a comment: it and everything up to and
  including the next newline leave the reader as it was.
\<close>

lemma state_reader_hash:
  "mode s = Std \<Longrightarrow> sym_buf s = [] \<Longrightarrow> state_reader (CHR ''#'') False s = s\<lparr> mode := Cmt \<rparr>"
  by (simp add: state_reader_def std_branch_def cmt_branch_def Let_def char_class_eval)

lemma state_reader_cmt:
  "mode s = Cmt \<Longrightarrow>
     state_reader c eof s = (if c = CHR 0x0A then s\<lparr> mode := Std \<rparr> else s)"
  by (simp add: state_reader_def cmt_branch_def Let_def)

lemma read_chars_cmt:
  "mode s = Cmt \<Longrightarrow> CHR 0x0A \<notin> set cs \<Longrightarrow> read_chars cs s = s"
  by (induction cs arbitrary: s) (auto simp: read_chars_def state_reader_cmt)

lemma comment_skipped:
  assumes "mode s = Std" "sym_buf s = []" "CHR 0x0A \<notin> set cs"
  shows "read_chars (CHR ''#'' # cs @ [CHR 0x0A]) s = s"
proof -
  have "read_chars (CHR ''#'' # cs @ [CHR 0x0A]) s =
          read_chars [CHR 0x0A] (read_chars cs (state_reader (CHR ''#'') False s))"
    by (simp add: read_chars_def)
  also have "state_reader (CHR ''#'') False s = s\<lparr> mode := Cmt \<rparr>"
    using assms(1,2) by (rule state_reader_hash)
  also have "read_chars cs (s\<lparr> mode := Cmt \<rparr>) = s\<lparr> mode := Cmt \<rparr>"
    using assms(3) by (simp add: read_chars_cmt)
  also have "read_chars [CHR 0x0A] (s\<lparr> mode := Cmt \<rparr>) = s"
    using assms(1) by (simp add: read_chars_def state_reader_cmt)
  finally show ?thesis .
qed

text \<open>
  With a symbol in the buffer, the chain of tests reaches \<open>elif sym_buf\<close> before
  \<open>elif char == '#'\<close>: the \<open>#\<close> only ends the symbol, and the reader stays in symbol mode.
\<close>

lemma hash_after_symbol:
  "mode s = Std \<Longrightarrow> sym_buf s \<noteq> [] \<Longrightarrow> state_reader (CHR ''#'') False s = flush s"
  by (simp add: state_reader_def std_branch_def flush_def Let_def char_class_eval)

text \<open>
  C6. The claim is that a \<open>#\<close> met in symbol mode starts a comment that is discarded up to
  and including the next newline. On the text \<open>1 1 1 1 1#x\<close> with a final newline the code
  does otherwise: the \<open>#\<close> directly after the fifth symbol only ends that symbol, the
  comment text \<open>x\<close> is taken as a sixth symbol token, and the parser raises
  \<open>IncorrectSymbolCount(6)\<close>. With a space before the \<open>#\<close> the comment is discarded and the
  text gives one rule.
\<close>

theorem hash_after_symbol_is_no_comment:
  "read_rules ''1 1 1 1 1#x\<newline>'' = Inl (IncorrectSymbolCount 6) \<and>
   symbol_tokens (read_final ''1 1 1 1 1#x\<newline>'') = [''1'', ''1'', ''1'', ''1'', ''1'', ''x''] \<and>
   read_rules ''1 1 1 1 1 #x\<newline>'' =
     Inr ([(PStr ''1'', PStr ''1'', PStr ''1'', PStr ''1'', PStr ''1'')], Map.empty)"
  by (simp add: reader_eval symbol_tokens_def rule_fields_def current_state_def
        current_symbol_def next_state_def next_symbol_def head_direction_def)


section \<open>The symbols taken are the tokens of the text\<close>

lemma eof_tokens: "symbol_tokens (state_reader c True s) = final_tokens s"
proof (cases "mode s")
  case Std
  show ?thesis
  proof (cases "sym_buf s = []")
    case True
    with Std show ?thesis
      by (simp add: state_reader_def std_branch_def cmt_branch_def final_tokens_def
            symbol_tokens_def Let_def)
  next
    case False
    have "std_branch c True s = flush s"
      using False by (simp add: std_branch_def flush_def Let_def)
    then have "state_reader c True s = flush s"
      using Std by (simp add: state_reader_def flush_fields)
    with Std False show ?thesis
      by (simp add: final_tokens_def flush_tokens)
  qed
next
  case Cfg
  then show ?thesis
    by (simp add: state_reader_def cfg_branch_def final_tokens_def symbol_tokens_def)
next
  case Cmt
  then show ?thesis
    by (simp add: state_reader_def cmt_branch_def final_tokens_def symbol_tokens_def)
qed

lemma read_chars_Cons: "read_chars (c # cs) s = read_chars cs (state_reader c False s)"
  by (simp add: read_chars_def)

lemma read_chars_Nil: "read_chars [] s = s"
  by (simp add: read_chars_def)

subsection \<open>Configuration mode\<close>

lemma cfg_ignore:
  "mode s = Cfg \<Longrightarrow> sym_buf s = [] \<Longrightarrow> \<not> cfg_char c \<Longrightarrow> state_reader c False s = s"
  by (simp add: state_reader_def cfg_branch_def)

lemma cfg_collect:
  "mode s = Cfg \<Longrightarrow> cfg_char c \<Longrightarrow>
     state_reader c False s = s\<lparr> sym_buf := sym_buf s @ [c] \<rparr>"
  by (simp add: state_reader_def cfg_branch_def)

lemma cfg_store:
  "mode s = Cfg \<Longrightarrow> sym_buf s \<noteq> [] \<Longrightarrow> \<not> cfg_char c \<Longrightarrow>
     state_reader c False s =
       s\<lparr> cfg := (cfg s)(cfg_buf s \<mapsto> sym_buf s), cfg_buf := [], sym_buf := [], mode := Std \<rparr>"
  by (simp add: state_reader_def cfg_branch_def)

lemma cfg_skip:
  "mode s = Cfg \<Longrightarrow> sym_buf s = [] \<Longrightarrow>
     read_chars cs s = read_chars (dropWhile (\<lambda>c. \<not> cfg_char c) cs) s"
  by (induction cs) (simp_all add: read_chars_Cons cfg_ignore)

lemma cfg_take:
  "mode s = Cfg \<Longrightarrow>
     read_chars cs s =
       read_chars (dropWhile cfg_char cs) (s\<lparr> sym_buf := sym_buf s @ takeWhile cfg_char cs \<rparr>)"
proof (induction cs arbitrary: s)
  case Nil
  show ?case by simp
next
  case (Cons c cs)
  show ?case
  proof (cases "cfg_char c")
    case True
    with Cons.prems have "read_chars (c # cs) s = read_chars cs (s\<lparr> sym_buf := sym_buf s @ [c] \<rparr>)"
      by (simp add: read_chars_Cons cfg_collect)
    also have "\<dots> = read_chars (dropWhile cfg_char cs)
        ((s\<lparr> sym_buf := sym_buf s @ [c] \<rparr>)\<lparr> sym_buf :=
            sym_buf (s\<lparr> sym_buf := sym_buf s @ [c] \<rparr>) @ takeWhile cfg_char cs \<rparr>)"
      using Cons.prems by (intro Cons.IH) simp
    finally show ?thesis using True by simp
  next
    case False
    then show ?thesis by simp
  qed
qed

lemma cfg_value:
  assumes "mode s = Cfg" "sym_buf s = []"
  shows "\<exists>s'. mode s' = Std \<and> sym_buf s' = [] \<and> symbol_tokens s' = symbol_tokens s \<and>
           final_tokens (read_chars cs s) = final_tokens (read_chars (after_value cs) s')"
proof -
  let ?r = "dropWhile (\<lambda>c. \<not> cfg_char c) cs"
  let ?s0 = "s\<lparr> mode := Std \<rparr>"
  have s0: "mode ?s0 = Std" "sym_buf ?s0 = []" "symbol_tokens ?s0 = symbol_tokens s"
    "final_tokens ?s0 = symbol_tokens s"
    using assms by (simp_all add: symbol_tokens_def final_tokens_def)
  have e1: "read_chars cs s = read_chars ?r s"
    using assms by (rule cfg_skip)
  show ?thesis
  proof (cases ?r)
    case Nil
    then have "after_value cs = []"
      by (simp add: after_value_def del: dropWhile_eq_Nil_conv)
    moreover have "final_tokens (read_chars cs s) = symbol_tokens s"
      using e1 Nil assms by (simp add: read_chars_Nil final_tokens_def)
    ultimately show ?thesis
      using s0 by (intro exI [of _ ?s0]) (simp add: read_chars_Nil)
  next
    case (Cons x xs)
    then have x: "cfg_char x"
      using hd_dropWhile [of "\<lambda>c. \<not> cfg_char c" cs] by simp
    let ?a = "dropWhile cfg_char ?r"
    let ?s1 = "s\<lparr> sym_buf := takeWhile cfg_char ?r \<rparr>"
    have e2: "read_chars ?r s = read_chars ?a ?s1"
      using cfg_take [OF assms(1), of ?r] assms(2) by simp
    have s1: "mode ?s1 = Cfg" "sym_buf ?s1 \<noteq> []" "symbol_tokens ?s1 = symbol_tokens s"
      using assms(1) Cons x by (simp_all add: symbol_tokens_def)
    show ?thesis
    proof (cases ?a)
      case Nil
      then have "after_value cs = []"
      by (simp add: after_value_def del: dropWhile_eq_Nil_conv)
      moreover have "final_tokens (read_chars cs s) = symbol_tokens s"
      proof -
        have "read_chars cs s = read_chars ?a ?s1"
          using e1 e2 by (rule trans)
        also have "\<dots> = ?s1"
          unfolding Nil by (rule read_chars_Nil)
        finally have "read_chars cs s = ?s1" .
        then show ?thesis
          using assms(1) by (simp add: final_tokens_def symbol_tokens_def)
      qed
      ultimately show ?thesis
        using s0 by (intro exI [of _ ?s0]) (simp add: read_chars_Nil)
    next
      case (Cons t rest)
      then have t: "\<not> cfg_char t"
        using hd_dropWhile [of cfg_char ?r] by auto
      let ?s2 = "?s1\<lparr> cfg := (cfg ?s1)(cfg_buf ?s1 \<mapsto> sym_buf ?s1), cfg_buf := [],
                     sym_buf := [], mode := Std \<rparr>"
      have "read_chars cs s = read_chars ?a ?s1"
        using e1 e2 by (rule trans)
      also have "\<dots> = read_chars rest (state_reader t False ?s1)"
        unfolding Cons by (rule read_chars_Cons)
      also have "state_reader t False ?s1 = ?s2"
        using s1(1,2) t by (rule cfg_store)
      finally have e3: "read_chars cs s = read_chars rest ?s2" .
      have r: "after_value cs = rest"
        unfolding after_value_def Cons by simp
      have "mode ?s2 = Std" "sym_buf ?s2 = []" "symbol_tokens ?s2 = symbol_tokens s"
        by (simp_all add: symbol_tokens_def)
      with e3 r show ?thesis
        by (intro exI [of _ ?s2]) (simp only: simp_thms)
    qed
  qed
qed

subsection \<open>Comment mode\<close>

lemma cmt_skip:
  "mode s = Cmt \<Longrightarrow> read_chars cs s = read_chars (dropWhile (\<lambda>c. c \<noteq> CHR 0x0A) cs) s"
  by (induction cs) (simp_all add: read_chars_Cons state_reader_def cmt_branch_def)

lemma cmt_text:
  assumes "mode s = Cmt" "sym_buf s = []"
  shows "final_tokens (read_chars cs s) =
           final_tokens (read_chars (after_comment cs) (s\<lparr> mode := Std \<rparr>))"
proof (cases "dropWhile (\<lambda>c. c \<noteq> CHR 0x0A) cs")
  case Nil
  then have "after_comment cs = []"
    by (simp add: after_comment_def del: dropWhile_eq_Nil_conv)
  moreover have "read_chars cs s = s"
    using cmt_skip [OF assms(1), of cs] Nil by (simp add: read_chars_Nil)
  ultimately show ?thesis
    using assms by (simp add: read_chars_Nil final_tokens_def symbol_tokens_def)
next
  case (Cons x xs)
  then have x: "x = CHR 0x0A"
    using hd_dropWhile [of "\<lambda>c. c \<noteq> CHR 0x0A" cs] by auto
  have "read_chars cs s = read_chars xs (state_reader x False s)"
    using cmt_skip [OF assms(1), of cs] Cons by (simp add: read_chars_Cons)
  also have "state_reader x False s = s\<lparr> mode := Std \<rparr>"
    using assms(1) x by (simp add: state_reader_def cmt_branch_def)
  finally show ?thesis
    using Cons by (simp add: after_comment_def)
qed


subsection \<open>Symbol mode\<close>

lemma not_sym_colon: "\<not> sym_char (CHR '':'')"
  by (simp add: char_class_eval)

lemma not_sym_hash: "\<not> sym_char (CHR ''#'')"
  by (simp add: char_class_eval)

lemma std_take:
  assumes "mode s = Std"
  shows "read_chars cs s =
           read_chars (dropWhile sym_char cs) (s\<lparr> sym_buf := sym_buf s @ takeWhile sym_char cs \<rparr>)"
proof -
  have "read_chars cs s = read_chars (takeWhile sym_char cs @ dropWhile sym_char cs) s"
    by simp
  also have "\<dots> = read_chars (dropWhile sym_char cs) (read_chars (takeWhile sym_char cs) s)"
    by (rule read_chars_append)
  also have "read_chars (takeWhile sym_char cs) s = s\<lparr> sym_buf := sym_buf s @ takeWhile sym_char cs \<rparr>"
    using assms by (intro read_chars_token) (auto dest: set_takeWhileD)
  finally show ?thesis .
qed

lemma std_colon:
  "mode s = Std \<Longrightarrow>
     state_reader (CHR '':'') False s =
       s\<lparr> cfg_buf := lower (sym_buf s), sym_buf := [], mode := Cfg \<rparr>"
  by (simp add: state_reader_def std_branch_def cfg_branch_def not_sym_colon cfg_char_def)

lemma std_delimiter:
  "mode s = Std \<Longrightarrow> sym_buf s \<noteq> [] \<Longrightarrow> \<not> sym_char d \<Longrightarrow> d \<noteq> CHR '':'' \<Longrightarrow>
     state_reader d False s = flush s"
  by (simp add: state_reader_def std_branch_def flush_def Let_def)

lemma std_other:
  "mode s = Std \<Longrightarrow> sym_buf s = [] \<Longrightarrow> \<not> sym_char c \<Longrightarrow> c \<noteq> CHR '':'' \<Longrightarrow>
     c \<noteq> CHR ''#'' \<Longrightarrow> state_reader c False s = s"
  by (simp add: state_reader_def std_branch_def)

lemma read_chars_text_tokens:
  "mode s = Std \<Longrightarrow> sym_buf s = [] \<Longrightarrow>
     final_tokens (read_chars cs s) = symbol_tokens s @ text_tokens cs"
proof (induction cs arbitrary: s rule: text_tokens.induct)
  case 1
  then show ?case by (simp add: read_chars_Nil final_tokens_def)
next
  case (2 c cs)
  note std = \<open>mode s = Std\<close> and emp = \<open>sym_buf s = []\<close>
  show ?case
  proof (cases "sym_char c")
    case True
    let ?tok = "c # takeWhile sym_char cs"
    let ?s1 = "s\<lparr> sym_buf := ?tok \<rparr>"
    have s1: "mode ?s1 = Std" "sym_buf ?s1 \<noteq> []" "symbol_tokens ?s1 = symbol_tokens s"
      using std by (simp_all add: symbol_tokens_def)
    have "read_chars (c # cs) s =
            read_chars (dropWhile sym_char (c # cs))
              (s\<lparr> sym_buf := sym_buf s @ takeWhile sym_char (c # cs) \<rparr>)"
      using std by (rule std_take)
    then have e1: "read_chars (c # cs) s = read_chars (dropWhile sym_char cs) ?s1"
      using True emp by simp
    show ?thesis
    proof (cases "dropWhile sym_char cs")
      case Nil
      have "read_chars (c # cs) s = ?s1"
        using e1 unfolding Nil by (simp add: read_chars_Nil)
      moreover have "text_tokens (c # cs) = [?tok]"
        using True Nil by (simp del: dropWhile_eq_Nil_conv)
      ultimately show ?thesis
        using std by (simp add: final_tokens_def symbol_tokens_def)
    next
      case (Cons d ds)
      then have d: "\<not> sym_char d"
        using hd_dropWhile [of sym_char cs] by auto
      have e2: "read_chars (c # cs) s = read_chars ds (state_reader d False ?s1)"
        using e1 unfolding Cons by (simp add: read_chars_Cons)
      show ?thesis
      proof (cases "d = CHR '':''")
        case colon: True
        let ?s2 = "?s1\<lparr> cfg_buf := lower (sym_buf ?s1), sym_buf := [], mode := Cfg \<rparr>"
        have "state_reader d False ?s1 = ?s2"
          unfolding colon using s1(1) by (rule std_colon)
        with e2 have e3: "read_chars (c # cs) s = read_chars ds ?s2" by simp
        have s2: "mode ?s2 = Cfg" "sym_buf ?s2 = []" "symbol_tokens ?s2 = symbol_tokens s"
          by (simp_all add: symbol_tokens_def)
        from cfg_value [OF s2(1,2), of ds] obtain s' where
          s': "mode s' = Std" "sym_buf s' = []" "symbol_tokens s' = symbol_tokens ?s2"
            "final_tokens (read_chars ds ?s2) = final_tokens (read_chars (after_value ds) s')"
          by blast
        have "final_tokens (read_chars (after_value ds) s') =
                symbol_tokens s' @ text_tokens (after_value ds)"
          using True Cons colon s'(1,2) by (rule "2.IH"(1))
        moreover have "text_tokens (c # cs) = text_tokens (after_value ds)"
          using True Cons colon by simp
        ultimately show ?thesis
          using e3 s'(3,4) s2(3) by simp
      next
        case other: False
        have "state_reader d False ?s1 = flush ?s1"
          using s1(1,2) d other by (rule std_delimiter)
        with e2 have e3: "read_chars (c # cs) s = read_chars ds (flush ?s1)" by simp
        have f: "mode (flush ?s1) = Std" "sym_buf (flush ?s1) = []"
          "symbol_tokens (flush ?s1) = symbol_tokens s @ [?tok]"
          using std by (simp_all add: flush_fields flush_tokens)
        have "final_tokens (read_chars ds (flush ?s1)) =
                symbol_tokens (flush ?s1) @ text_tokens ds"
          using True Cons other f(1,2) by (rule "2.IH"(2))
        moreover have "text_tokens (c # cs) = ?tok # text_tokens ds"
          using True Cons other by simp
        ultimately show ?thesis
          using e3 f(3) by simp
      qed
    qed
  next
    case nosym: False
    show ?thesis
    proof (cases "c = CHR '':''")
      case colon: True
      let ?s2 = "s\<lparr> cfg_buf := lower (sym_buf s), sym_buf := [], mode := Cfg \<rparr>"
      have "state_reader c False s = ?s2"
        unfolding colon using std by (rule std_colon)
      then have e3: "read_chars (c # cs) s = read_chars cs ?s2"
        by (simp add: read_chars_Cons)
      have s2: "mode ?s2 = Cfg" "sym_buf ?s2 = []" "symbol_tokens ?s2 = symbol_tokens s"
        by (simp_all add: symbol_tokens_def)
      from cfg_value [OF s2(1,2), of cs] obtain s' where
        s': "mode s' = Std" "sym_buf s' = []" "symbol_tokens s' = symbol_tokens ?s2"
          "final_tokens (read_chars cs ?s2) = final_tokens (read_chars (after_value cs) s')"
        by blast
      have "final_tokens (read_chars (after_value cs) s') =
              symbol_tokens s' @ text_tokens (after_value cs)"
        using nosym colon s'(1,2) by (rule "2.IH"(3))
      moreover have "text_tokens (c # cs) = text_tokens (after_value cs)"
        using nosym colon by simp
      ultimately show ?thesis
        using e3 s'(3,4) s2(3) by simp
    next
      case nocolon: False
      show ?thesis
      proof (cases "c = CHR ''#''")
        case hash: True
        let ?s2 = "s\<lparr> mode := Cmt \<rparr>"
        let ?s3 = "?s2\<lparr> mode := Std \<rparr>"
        have "state_reader c False s = ?s2"
          unfolding hash using std emp by (rule state_reader_hash)
        then have e3: "read_chars (c # cs) s = read_chars cs ?s2"
          by (simp add: read_chars_Cons)
        have s2: "mode ?s2 = Cmt" "sym_buf ?s2 = []"
          using emp by simp_all
        have c: "final_tokens (read_chars cs ?s2) = final_tokens (read_chars (after_comment cs) ?s3)"
          using s2 by (rule cmt_text)
        have s3: "mode ?s3 = Std" "sym_buf ?s3 = []" "symbol_tokens ?s3 = symbol_tokens s"
          using emp by (simp_all add: symbol_tokens_def)
        have "final_tokens (read_chars (after_comment cs) ?s3) =
                symbol_tokens ?s3 @ text_tokens (after_comment cs)"
          using nosym nocolon hash s3(1,2) by (rule "2.IH"(4))
        moreover have "text_tokens (c # cs) = text_tokens (after_comment cs)"
          using nosym nocolon hash by simp
        ultimately show ?thesis
          using e3 c s3(3) by simp
      next
        case nohash: False
        have "state_reader c False s = s"
          using std emp nosym nocolon nohash by (rule std_other)
        then have e3: "read_chars (c # cs) s = read_chars cs s"
          by (simp add: read_chars_Cons)
        have "final_tokens (read_chars cs s) = symbol_tokens s @ text_tokens cs"
          using nosym nocolon nohash std emp by (rule "2.IH"(5))
        moreover have "text_tokens (c # cs) = text_tokens cs"
          using nosym nocolon nohash by simp
        ultimately show ?thesis
          using e3 by simp
      qed
    qed
  qed
qed

lemma read_final_text_tokens: "symbol_tokens (read_final file) = text_tokens file"
proof -
  have "symbol_tokens (read_final file) = final_tokens (read_chars file reader_init)"
    by (simp add: read_final_def eof_tokens)
  also have "\<dots> = symbol_tokens reader_init @ text_tokens file"
    by (rule read_chars_text_tokens) (simp_all add: reader_init_def)
  finally show ?thesis
    by (simp add: reader_init_def symbol_tokens_def)
qed


lemma length_concat_rule_fields: "length (concat (map rule_fields rs)) = 5 * length rs"
  by (induction rs) (simp_all add: rule_fields_def)

lemma read_rules_groups:
  assumes "read_rules file = Inr (rs, c)"
  shows "concat (map rule_fields rs) = text_tokens file"
proof -
  let ?s = "read_final file"
  from assms have m: "symc ?s mod 5 = 0" and rs: "rs = rules_out ?s"
    by (auto simp: read_rules_def Let_def split: if_splits)
  have i: "symc ?s = int (length (symbol_tokens ?s))" "length (tup_buf ?s) < 5"
    using read_final_inv [of "file"] by (simp_all add: reader_inv_def)
  have "length (symbol_tokens ?s) = 5 * length (rules_out ?s) + length (tup_buf ?s)"
    by (simp add: symbol_tokens_def length_concat_rule_fields)
  with m i have "tup_buf ?s = []"
    by (cases "tup_buf ?s") (simp_all, presburger)
  then have "symbol_tokens ?s = concat (map rule_fields rs)"
    using rs by (simp add: symbol_tokens_def)
  then show ?thesis
    by (simp add: read_final_text_tokens)
qed

text \<open>
  C5. For every text, the parser raises \<open>IncorrectSymbolCount(n)\<close> exactly when the text is
  not empty, \<open>n\<close> is the number of symbol tokens of the text (those outside the
  configuration pairs and the comments, a token pending at the end of the text included)
  and \<open>n\<close> is not a multiple of five. The symbols that the reader takes are exactly these
  tokens, and when the parser returns, its rules are these tokens in groups of five. In
  particular, for a text made of non-empty tokens of symbol characters, each followed by a
  space, the tokens are these, and the parser raises \<open>IncorrectSymbolCount(n)\<close> exactly
  when \<open>n\<close> is their number and it is not a multiple of five. (On the empty text the final
  call of \<open>state_reader\<close> raises \<open>NameError\<close>.)
\<close>

theorem incorrect_symbol_count:
  "(read_rules src = Inl (IncorrectSymbolCount n) \<longleftrightarrow>
      src \<noteq> [] \<and> n = int (length (text_tokens src)) \<and> n mod 5 \<noteq> 0) \<and>
   symbol_tokens (read_final src) = text_tokens src \<and>
   (read_rules src = Inr (rs, c) \<longrightarrow> concat (map rule_fields rs) = text_tokens src) \<and>
   (ts \<noteq> [] \<and> (\<forall>t\<in>set ts. t \<noteq> [] \<and> (\<forall>c\<in>set t. sym_char c)) \<longrightarrow>
      text_tokens (spaced ts) = ts \<and>
      (read_rules (spaced ts) = Inl (IncorrectSymbolCount n) \<longleftrightarrow>
         n = int (length ts) \<and> length ts mod 5 \<noteq> 0))"
proof (intro conjI impI)
  show "read_rules src = Inl (IncorrectSymbolCount n) \<longleftrightarrow>
      src \<noteq> [] \<and> n = int (length (text_tokens src)) \<and> n mod 5 \<noteq> 0"
    using read_rules_count [of src n] by (simp add: read_final_text_tokens)
next
  show "symbol_tokens (read_final src) = text_tokens src"
    by (rule read_final_text_tokens)
next
  assume "read_rules src = Inr (rs, c)"
  then show "concat (map rule_fields rs) = text_tokens src"
    by (rule read_rules_groups)
next
  assume a: "ts \<noteq> [] \<and> (\<forall>t\<in>set ts. t \<noteq> [] \<and> (\<forall>c\<in>set t. sym_char c))"
  then have "symbol_tokens (read_final (spaced ts)) = ts"
    by (simp add: read_final_spaced)
  then show t: "text_tokens (spaced ts) = ts"
    by (simp add: read_final_text_tokens)
  have "int (length ts) mod 5 \<noteq> 0 \<longleftrightarrow> length ts mod 5 \<noteq> 0"
    by presburger
  with a t show "read_rules (spaced ts) = Inl (IncorrectSymbolCount n) \<longleftrightarrow>
         n = int (length ts) \<and> length ts mod 5 \<noteq> 0"
    using read_rules_count [of "spaced ts" n] spaced_nonempty [of ts]
    by (auto simp: read_final_text_tokens)
qed



theorem incorrect_symbol_count_witness:
  "text_tokens ''halt: Z\<newline>1 1 1 1 1 # five\<newline>1 _'' =
     [''1'', ''1'', ''1'', ''1'', ''1'', ''1'', ''_''] \<and>
   read_rules ''halt: Z\<newline>1 1 1 1 1 # five\<newline>1 _'' = Inl (IncorrectSymbolCount 7) \<and>
   spaced [''1'', ''1'', ''1'', ''1'', ''1'', ''1'', ''_''] = ''1 1 1 1 1 1 _ '' \<and>
   read_rules ''1 1 1 1 1 1 _ '' = Inl (IncorrectSymbolCount 7) \<and>
   read_rules ''1 1 1 1 1\<newline>'' =
     Inr ([(PStr ''1'', PStr ''1'', PStr ''1'', PStr ''1'', PStr ''1'')], Map.empty) \<and>
   text_tokens ''1 1 1 1 1\<newline>'' = [''1'', ''1'', ''1'', ''1'', ''1'']"
proof -
  let ?f = "''halt: Z\<newline>1 1 1 1 1 # five\<newline>1 _''"
  let ?ts = "[''1'', ''1'', ''1'', ''1'', ''1'', ''1'', ''_'']"
  have t: "text_tokens ?f = ?ts"
    by code_simp
  have "read_rules ?f = Inl (IncorrectSymbolCount 7) \<longleftrightarrow>
          ?f \<noteq> [] \<and> 7 = int (length (text_tokens ?f)) \<and> (7::int) mod 5 \<noteq> 0"
    by (rule incorrect_symbol_count [where src = ?f and n = 7, THEN conjunct1])
  then have r: "read_rules ?f = Inl (IncorrectSymbolCount 7)"
    unfolding t by simp
  have s: "spaced ?ts = ''1 1 1 1 1 1 _ ''"
    by (simp add: spaced_def)
  have h: "?ts \<noteq> [] \<and> (\<forall>t\<in>set ?ts. t \<noteq> [] \<and> (\<forall>c\<in>set t. sym_char c))"
    by (simp add: char_class_eval)
  note c = incorrect_symbol_count [where ts = ?ts and n = 7,
      THEN conjunct2, THEN conjunct2, THEN conjunct2, THEN mp, OF h]
  from c [THEN conjunct2] have "read_rules (spaced ?ts) = Inl (IncorrectSymbolCount 7)"
    by simp
  with s have r2: "read_rules ''1 1 1 1 1 1 _ '' = Inl (IncorrectSymbolCount 7)"
    by simp
  let ?g = "''1 1 1 1 1\<newline>''"
  let ?rs = "[(PStr ''1'', PStr ''1'', PStr ''1'', PStr ''1'', PStr ''1'')]"
  have g: "read_rules ?g = Inr (?rs, Map.empty)"
    by (simp add: reader_eval)
  have "concat (map rule_fields ?rs) = text_tokens ?g"
    by (rule incorrect_symbol_count [where src = ?g and rs = ?rs and c = Map.empty,
          THEN conjunct2, THEN conjunct2, THEN conjunct1, THEN mp, OF g])
  then have g2: "text_tokens ?g = [''1'', ''1'', ''1'', ''1'', ''1'']"
    by (simp add: rule_fields_def current_state_def current_symbol_def next_state_def
          next_symbol_def head_direction_def)
  show ?thesis
    by (intro conjI) (rule t r s r2 g g2)+
qed

section \<open>A run with configured labels\<close>

text \<open>
  A rule file with \<open>init: A\<close> and \<open>halt: Z\<close> whose machine passes through the state \<open>0\<close>,
  the default halting label, and goes on to halt in \<open>Z\<close>.
\<close>

theorem run_halts_at_configured_label_witness:
  "read_rules ''init: A\<newline>halt: Z\<newline>A * 0 * 1\<newline>0 * Z * 0\<newline>'' =
     Inr ([(PStr ''A'', PStr ''*'', PStr ''0'', PStr ''*'', PStr ''1''),
           (PStr ''0'', PStr ''*'', PStr ''Z'', PStr ''*'', PStr ''0'')],
          [''init'' \<mapsto> ''A'', ''halt'' \<mapsto> ''Z'']) \<and>
   run (tape_setter
          (load ([(PStr ''A'', PStr ''*'', PStr ''0'', PStr ''*'', PStr ''1''),
                  (PStr ''0'', PStr ''*'', PStr ''Z'', PStr ''*'', PStr ''0'')],
                 [''init'' \<mapsto> ''A'', ''halt'' \<mapsto> ''Z''])) ''ab'') =
     Some (Inr ([(1, ''b''), (0, ''a'')],
       \<lparr> rules = [(PStr ''A'', PStr ''*'', PStr ''0'', PStr ''*'', PStr ''1''),
                  (PStr ''0'', PStr ''*'', PStr ''Z'', PStr ''*'', PStr ''0'')],
         STATE_INIT = ''A'', STATE_HALT = ''Z'', state = ''Z'', head = 1,
         rule = Some (PStr ''0'', PStr ''*'', PStr ''Z'', PStr ''*'', PStr ''0''),
         tape = [(1, ''b''), (0, ''a'')], stepc = 2, head_moves = 1,
         path = [''A'', ''0'', ''Z''] \<rparr>))"
proof -
  let ?rs = "[(PStr ''A'', PStr ''*'', PStr ''0'', PStr ''*'', PStr ''1''),
              (PStr ''0'', PStr ''*'', PStr ''Z'', PStr ''*'', PStr ''0'')]"
  let ?c = "[''init'' \<mapsto> ''A'', ''halt'' \<mapsto> ''Z'']"
  let ?m = "tape_setter (load (?rs, ?c)) ''ab''"
  let ?m' = "\<lparr> rules = ?rs,
         STATE_INIT = ''A'', STATE_HALT = ''Z'', state = ''Z'', head = 1,
         rule = Some (PStr ''0'', PStr ''*'', PStr ''Z'', PStr ''*'', PStr ''0''),
         tape = [(1, ''b''), (0, ''a'')], stepc = 2, head_moves = 1,
         path = [''A'', ''0'', ''Z''] \<rparr>"
  have p: "read_rules ''init: A\<newline>halt: Z\<newline>A * 0 * 1\<newline>0 * Z * 0\<newline>'' = Inr (?rs, ?c)"
    by (simp add: reader_eval)
  have i: "?c ''init'' = Some ''A''" and h: "?c ''halt'' = Some ''Z''"
    by simp_all
  have s0: "steps 0 ?m = Inr ?m" by simp
  have m0: "state ?m = ''A''"
    by (simp add: load_def machine_eval)
  have s1: "steps (Suc 0) ?m =
      Inr \<lparr> rules = ?rs, STATE_INIT = ''A'', STATE_HALT = ''Z'', state = ''0'', head = 1,
         rule = Some (PStr ''A'', PStr ''*'', PStr ''0'', PStr ''*'', PStr ''1''),
         tape = [(0, ''a''), (1, ''b'')], stepc = 1, head_moves = 1,
         path = [''A'', ''0''] \<rparr>"
    by (simp add: load_def machine_eval)
  have s2: "steps (Suc (Suc 0)) ?m = Inr ?m'"
    by (simp add: load_def machine_eval)
  have before: "\<forall>k<Suc (Suc 0). \<forall>mk. steps k ?m = Inr mk \<longrightarrow> state mk \<noteq> ''Z''"
  proof (intro allI impI)
    fix k mk assume k: "k < Suc (Suc 0)" "steps k ?m = Inr mk"
    from k(1) have "k = 0 \<or> k = Suc 0" by auto
    then show "state mk \<noteq> ''Z''"
    proof
      assume "k = 0"
      with k(2) s0 m0 show ?thesis by auto
    next
      assume "k = Suc 0"
      with k(2) s1 show ?thesis by auto
    qed
  qed
  have "\<exists>n. steps n ?m = Inr ?m' \<and> tape ?m' = tape ?m' \<and> state ?m' = ''Z'' \<and>
          (\<forall>k<n. \<forall>mk. steps k ?m = Inr mk \<longrightarrow> state mk \<noteq> ''Z'')"
    using s2 before by (intro exI [of _ "Suc (Suc 0)"]) simp
  with run_halts_at_configured_label [OF p i h, of "''ab''" "tape ?m'" ?m']
  have "run ?m = Some (Inr (tape ?m', ?m'))"
    by blast
  with p show ?thesis by simp
qed

end
